theory Spec2Isabelle
  imports Main "HOL-Library.Multiset"
begin

section \<open>Span Normalizer (utils.py)\<close>

text \<open>
  A span is the Python tuple \<open>(start, end, label)\<close>; the integers are Python's unbounded
  integers. Nothing in the source requires \<open>start < end\<close>.
\<close>

type_synonym span = "int \<times> int \<times> string"

definition span_begin :: "span \<Rightarrow> int" where
  "span_begin s = fst s"

definition span_end :: "span \<Rightarrow> int" where
  "span_end s = fst (snd s)"

definition span_label :: "span \<Rightarrow> string" where
  "span_label s = snd (snd s)"

text \<open>
  The body of \<open>for span in sorted_spans\<close> in \<open>remove_overlapping_spans\<close>: the first
  argument is the list \<open>non_overlapping_spans\<close> built so far, \<open>prev_span\<close> its last entry.
\<close>

fun keep_spans :: "span list \<Rightarrow> span list \<Rightarrow> span list" where
  "keep_spans non_overlapping_spans [] = non_overlapping_spans"
| "keep_spans non_overlapping_spans (span # rest) =
     (if non_overlapping_spans = [] then keep_spans (non_overlapping_spans @ [span]) rest
      else
        (let prev_span = last non_overlapping_spans in
         if span_begin span \<ge> span_end prev_span
         then keep_spans (non_overlapping_spans @ [span]) rest
         else keep_spans non_overlapping_spans rest))"

text \<open>
  \<open>sorted(spans, key=lambda x: x[0])\<close> is a stable sort; \<open>sort_key\<close> is the stable
  insertion sort of the list library.
\<close>

definition remove_overlapping_spans :: "span list \<Rightarrow> span list" where
  "remove_overlapping_spans spans =
     (if spans = [] then []
      else
        (let sorted_spans = sort_key span_begin spans
         in keep_spans [] sorted_spans))"

subsection \<open>The reference algorithm of the specification\<close>

text \<open>
  The specification's wording: after the stable sort, a span is accepted iff its begin is at
  least the end of the last accepted span; the first span is always accepted. The first
  argument is the end of the last accepted span, \<open>None\<close> while nothing is accepted.
\<close>

fun greedy_accept :: "int option \<Rightarrow> span list \<Rightarrow> span list" where
  "greedy_accept last_end [] = []"
| "greedy_accept None (s # rest) = s # greedy_accept (Some (span_end s)) rest"
| "greedy_accept (Some e) (s # rest) =
     (if span_begin s \<ge> e then s # greedy_accept (Some (span_end s)) rest
      else greedy_accept (Some e) rest)"

definition reference_normalize :: "span list \<Rightarrow> span list" where
  "reference_normalize spans = greedy_accept None (sort_key span_begin spans)"

definition last_end :: "span list \<Rightarrow> int option" where
  "last_end acc = (if acc = [] then None else Some (span_end (last acc)))"

section \<open>BioC input objects and Python conventions\<close>

text \<open>
  The objects of the \<open>bioc\<close> library that the loader reads. An \<open>infons\<close> dictionary is an
  association list read with \<open>map_of\<close>; \<open>None\<close> and the empty dictionary are both the
  empty list, as \<open>infons or {}\<close> makes them. A character stands for one code point (of
  the range 0 to 255 that the character type has), so \<open>length\<close> is Python's \<open>len\<close>.
\<close>

record bioc_location =
  loc_offset :: int
  loc_length :: int

record bioc_annotation =
  ann_locations :: "bioc_location list"
  ann_infons :: "(string \<times> string) list"
  ann_text :: "string option"
  ann_id :: "string option"

record bioc_passage =
  psg_text :: "string option"
  psg_offset :: "int option"
  psg_infons :: "(string \<times> string) list"
  psg_annotations :: "bioc_annotation list"

record bioc_document =
  doc_id :: string
  doc_infons :: "(string \<times> string) list"
  doc_passages :: "bioc_passage list"

text \<open>Python truthiness of an optional string, and \<open>a or b\<close> on such values.\<close>

definition truthy :: "string option \<Rightarrow> bool" where
  "truthy v = (case v of None \<Rightarrow> False | Some s \<Rightarrow> s \<noteq> [])"

definition py_or :: "string option \<Rightarrow> string option \<Rightarrow> string option" where
  "py_or a b = (if truthy a then a else b)"

text \<open>
  \<open>str.upper\<close> and \<open>str.lower\<close> on the characters of the 8-bit character type (code
  points 0 to 255): the ASCII letters and the accented letters \<open>0xc0\<close> to \<open>0xde\<close> /
  \<open>0xe0\<close> to \<open>0xfe\<close> (without the signs \<open>0xd7\<close> and \<open>0xf7\<close>) change case, and
  \<open>0xdf\<close> (sharp s) becomes \<open>SS\<close> in upper case. The upper-case forms of \<open>0xb5\<close> and
  \<open>0xff\<close> lie outside this character type; these two characters are kept.
\<close>

definition lower_letters :: string where
  "lower_letters = ''abcdefghijklmnopqrstuvwxyz'' @
     [CHR 0xe0, CHR 0xe1, CHR 0xe2, CHR 0xe3, CHR 0xe4, CHR 0xe5, CHR 0xe6, CHR 0xe7,
      CHR 0xe8, CHR 0xe9, CHR 0xea, CHR 0xeb, CHR 0xec, CHR 0xed, CHR 0xee, CHR 0xef,
      CHR 0xf0, CHR 0xf1, CHR 0xf2, CHR 0xf3, CHR 0xf4, CHR 0xf5, CHR 0xf6, CHR 0xf8,
      CHR 0xf9, CHR 0xfa, CHR 0xfb, CHR 0xfc, CHR 0xfd, CHR 0xfe]"

definition upper_letters :: string where
  "upper_letters = ''ABCDEFGHIJKLMNOPQRSTUVWXYZ'' @
     [CHR 0xc0, CHR 0xc1, CHR 0xc2, CHR 0xc3, CHR 0xc4, CHR 0xc5, CHR 0xc6, CHR 0xc7,
      CHR 0xc8, CHR 0xc9, CHR 0xca, CHR 0xcb, CHR 0xcc, CHR 0xcd, CHR 0xce, CHR 0xcf,
      CHR 0xd0, CHR 0xd1, CHR 0xd2, CHR 0xd3, CHR 0xd4, CHR 0xd5, CHR 0xd6, CHR 0xd8,
      CHR 0xd9, CHR 0xda, CHR 0xdb, CHR 0xdc, CHR 0xdd, CHR 0xde]"

definition char_upper :: "char \<Rightarrow> string" where
  "char_upper c =
     (if c = CHR 0xdf then ''SS''
      else (case map_of (zip lower_letters upper_letters) c of Some u \<Rightarrow> [u] | None \<Rightarrow> [c]))"

definition char_lower :: "char \<Rightarrow> char" where
  "char_lower c = (case map_of (zip upper_letters lower_letters) c of Some l \<Rightarrow> l | None \<Rightarrow> c)"

definition upper :: "string \<Rightarrow> string" where
  "upper s = concat (map char_upper s)"

definition lower :: "string \<Rightarrow> string" where
  "lower s = map char_lower s"

section \<open>Section configuration and section names (loader.py)\<close>

record section_config =
  allowed_sections :: "string list"
  case_sensitive :: bool

definition is_section_allowed :: "string option \<Rightarrow> section_config option \<Rightarrow> bool" where
  "is_section_allowed section_type section_config =
     (case section_config of
        None \<Rightarrow> True
      | Some cfg \<Rightarrow>
          (case section_type of
             None \<Rightarrow> False
           | Some st \<Rightarrow>
               (if st = [] then False
                else if case_sensitive cfg then st \<in> set (allowed_sections cfg)
                else upper st \<in> set (allowed_sections cfg))))"

definition normalize_section_name :: "string option \<Rightarrow> section_config option \<Rightarrow> string" where
  "normalize_section_name section_type section_config =
     (case section_type of
        None \<Rightarrow> ''UNLABELED''
      | Some st \<Rightarrow>
          (if st = [] then ''UNLABELED''
           else if section_config = None then st
           else if is_section_allowed section_type section_config then st
           else ''OTHER''))"

section \<open>Section Boundary Tracker (loader.py, merge_consecutive_sections)\<close>

text \<open>
  The per-passage metadata dictionary and the section dictionary. The tracker reads
  \<open>passage["start"]\<close>, \<open>passage["end"]\<close> and \<open>passage["passage_index"]\<close> by subscript, so
  these are plain fields; \<open>section_type\<close> is read with \<open>get\<close> and may be absent. The
  Section Assigner reads a section's \<open>start\<close>, \<open>end\<close> and \<open>section_type\<close> with \<open>get\<close>, so
  they are optional in the section dictionary.
\<close>

record passage_metadata =
  pm_section_type :: "string option"
  pm_passage_index :: nat
  pm_start :: int
  pm_end :: int
  pm_length :: int
  pm_passage_label :: "string option"

record section_info =
  sec_section_type :: "string option"
  sec_start :: "int option"
  sec_end :: "int option"
  sec_passage_indices :: "nat list"

definition start_section :: "passage_metadata \<Rightarrow> section_info" where
  "start_section passage =
     \<lparr> sec_section_type = pm_section_type passage,
       sec_start = Some (pm_start passage),
       sec_end = Some (pm_end passage),
       sec_passage_indices = [pm_passage_index passage] \<rparr>"

definition extend_section :: "section_info \<Rightarrow> passage_metadata \<Rightarrow> section_info" where
  "extend_section current_section passage =
     current_section
       \<lparr> sec_end := Some (pm_end passage),
         sec_passage_indices := sec_passage_indices current_section @ [pm_passage_index passage] \<rparr>"

text \<open>
  The loop of \<open>merge_consecutive_sections\<close>, with its two variables \<open>merged_sections\<close> and
  \<open>current_section\<close>.
\<close>

fun merge_loop ::
  "section_info list \<Rightarrow> section_info option \<Rightarrow> passage_metadata list
     \<Rightarrow> section_info list \<times> section_info option" where
  "merge_loop merged_sections current_section [] = (merged_sections, current_section)"
| "merge_loop merged_sections None (passage # rest) =
     merge_loop merged_sections (Some (start_section passage)) rest"
| "merge_loop merged_sections (Some cur) (passage # rest) =
     (if sec_section_type cur = pm_section_type passage
      then merge_loop merged_sections (Some (extend_section cur passage)) rest
      else merge_loop (merged_sections @ [cur]) (Some (start_section passage)) rest)"

definition merge_consecutive_sections :: "passage_metadata list \<Rightarrow> section_info list" where
  "merge_consecutive_sections passages_metadata =
     (if passages_metadata = [] then []
      else
        (case merge_loop [] None passages_metadata of
           (merged_sections, current_section) \<Rightarrow>
             (case current_section of
                None \<Rightarrow> merged_sections
              | Some cur \<Rightarrow> merged_sections @ [cur])))"

section \<open>Document Assembler (loader.py, load_bioc_document)\<close>

text \<open>
  The annotation dictionaries that the loader emits and \<open>format_annotations\<close> reads. A field
  is \<open>None\<close> when the key is absent from the dictionary.
\<close>

record span_info =
  si_begin :: "int option"
  si_start :: "int option"
  si_end :: "int option"
  si_length :: "int option"

record annotation_dict =
  ad_span :: "span_info option"
  ad_obj :: "string option"
  ad_label :: "string option"
  ad_type :: "string option"
  ad_text :: "string option"
  ad_id :: "string option"

text \<open>
  \<open>infons.get("type") or infons.get("identifier") or infons.get("label") or "ENTITY"\<close>,
  with \<open>"ENTITY"\<close> kept when the infons are empty.
\<close>

definition annotation_type :: "(string \<times> string) list \<Rightarrow> string" where
  "annotation_type infons =
     (if infons = [] then ''ENTITY''
      else
        (case py_or (map_of infons ''type'')
                (py_or (map_of infons ''identifier'') (map_of infons ''label'')) of
           None \<Rightarrow> ''ENTITY''
         | Some l \<Rightarrow> (if l = [] then ''ENTITY'' else l)))"

definition convert_annotation :: "bioc_annotation \<Rightarrow> annotation_dict list" where
  "convert_annotation bioc_ann =
     map (\<lambda>location.
            \<lparr> ad_span = Some \<lparr> si_begin = Some (loc_offset location), si_start = None,
                               si_end = Some (loc_offset location + loc_length location),
                               si_length = None \<rparr>,
              ad_obj = Some (annotation_type (ann_infons bioc_ann)),
              ad_label = None,
              ad_type = None,
              ad_text = Some (case ann_text bioc_ann of None \<Rightarrow> [] | Some t \<Rightarrow> t),
              ad_id = ann_id bioc_ann \<rparr>)
         (ann_locations bioc_ann)"

text \<open>
  The variables of the assembly loop: \<open>full_text_parts\<close>, \<open>annotations\<close>,
  \<open>current_length\<close> (the cursor) and \<open>metadata_sections\<close>.
\<close>

record assembler_state =
  full_text_parts :: "string list"
  annotations_acc :: "annotation_dict list"
  current_length :: int
  metadata_sections :: "passage_metadata list"

definition initial_state :: assembler_state where
  "initial_state =
     \<lparr> full_text_parts = [], annotations_acc = [], current_length = 0, metadata_sections = [] \<rparr>"

definition passage_text_of :: "bioc_passage \<Rightarrow> string" where
  "passage_text_of bioc_passage = (case psg_text bioc_passage of None \<Rightarrow> [] | Some t \<Rightarrow> t)"

definition passage_section_type :: "bioc_passage \<Rightarrow> string option" where
  "passage_section_type bioc_passage =
     py_or (map_of (psg_infons bioc_passage) ''section_type'')
       (py_or (map_of (psg_infons bioc_passage) ''section'')
              (map_of (psg_infons bioc_passage) ''type''))"

text \<open>
  Lines 263 to 274: the passage offset (the cursor when the declared offset is missing), the
  padding when it lies beyond the cursor, and the reassignment of the local \<open>passage_offset\<close>
  to the cursor when it lies before. The result is the final value of that local and the
  state after padding.
\<close>

definition place_passage :: "assembler_state \<Rightarrow> bioc_passage \<Rightarrow> int \<times> assembler_state" where
  "place_passage st bioc_passage =
     (let passage_offset =
            (case psg_offset bioc_passage of None \<Rightarrow> current_length st | Some off \<Rightarrow> off)
      in
        if passage_offset > current_length st then
          (let padding_length = passage_offset - current_length st
           in (passage_offset,
               st \<lparr> full_text_parts :=
                      full_text_parts st @ [replicate (nat padding_length) CHR '' ''],
                    current_length := current_length st + padding_length \<rparr>))
        else if passage_offset < current_length st then (current_length st, st)
        else (passage_offset, st))"

text \<open>The body of \<open>for passage_idx, bioc_passage in enumerate(sorted_passages)\<close>.\<close>

definition assemble_passage ::
  "section_config option \<Rightarrow> assembler_state \<Rightarrow> nat \<times> bioc_passage \<Rightarrow> assembler_state" where
  "assemble_passage section_config st ip =
     (let passage_idx = fst ip;
          bioc_passage = snd ip;
          passage_text = passage_text_of bioc_passage;
          st1 = snd (place_passage st bioc_passage);
          passage_start = current_length st1;
          st2 = (if passage_text \<noteq> []
                 then st1 \<lparr> full_text_parts := full_text_parts st1 @ [passage_text],
                            current_length := current_length st1 + int (length passage_text) \<rparr>
                 else st1);
          passage_end = current_length st2;
          section_type = passage_section_type bioc_passage;
          normalized_section = normalize_section_name section_type section_config;
          st3 = (if normalized_section \<noteq> []
                 then st2 \<lparr> metadata_sections := metadata_sections st2 @
                        [\<lparr> pm_section_type = Some normalized_section,
                           pm_passage_index = passage_idx,
                           pm_start = passage_start,
                           pm_end = passage_end,
                           pm_length = passage_end - passage_start,
                           pm_passage_label = map_of (psg_infons bioc_passage) ''type'' \<rparr>] \<rparr>
                 else st2)
      in st3 \<lparr> annotations_acc :=
                 annotations_acc st3 @ concat (map convert_annotation (psg_annotations bioc_passage)) \<rparr>)"

text \<open>
  \<open>sorted(target_doc.passages, key=lambda p: p.offset if p.offset is not None else 0)\<close>:
  a stable sort in which a missing offset counts as key 0.
\<close>

definition offset_key :: "bioc_passage \<Rightarrow> int" where
  "offset_key p = (case psg_offset p of None \<Rightarrow> 0 | Some off \<Rightarrow> off)"

definition sorted_passages :: "bioc_passage list \<Rightarrow> bioc_passage list" where
  "sorted_passages passages = sort_key offset_key passages"

definition assemble_passages :: "section_config option \<Rightarrow> bioc_passage list \<Rightarrow> assembler_state" where
  "assemble_passages section_config passages =
     foldl (assemble_passage section_config) initial_state (enumerate 0 passages)"

definition assembled_text :: "assembler_state \<Rightarrow> string" where
  "assembled_text st = concat (full_text_parts st)"

text \<open>
  The \<open>DocumentData\<close> result. Of \<open>metadata_source\<close> the entries \<open>passages\<close> and \<open>sections\<close>
  are kept; the other entries (pmid, pmcid, doi, document type, dates) are copies of document
  infons and take no part in the assembly.
\<close>

record document_data =
  dd_doc_id :: string
  dd_text :: string
  dd_annotations :: "annotation_dict list"
  dd_infons :: "(string \<times> string) list"
  dd_passages :: "passage_metadata list"
  dd_sections :: "section_info list"

definition assemble_document :: "section_config option \<Rightarrow> bioc_document \<Rightarrow> document_data" where
  "assemble_document section_config target_doc =
     (let st = assemble_passages section_config (sorted_passages (doc_passages target_doc))
      in \<lparr> dd_doc_id = doc_id target_doc,
           dd_text = assembled_text st,
           dd_annotations = annotations_acc st,
           dd_infons = doc_infons target_doc,
           dd_passages = metadata_sections st,
           dd_sections = merge_consecutive_sections (metadata_sections st) \<rparr>)"

datatype load_error = FileNotFoundError | ValueError

text \<open>
  \<open>load_bioc_document\<close>: the collection is \<open>None\<close> when the file does not exist; the target
  is the first document with the requested id.
\<close>

definition load_bioc_document ::
  "bioc_document list option \<Rightarrow> string \<Rightarrow> section_config option \<Rightarrow> load_error + document_data" where
  "load_bioc_document collection document_id section_config =
     (case collection of
        None \<Rightarrow> Inl FileNotFoundError
      | Some documents \<Rightarrow>
          (case find (\<lambda>doc. doc_id doc = document_id) documents of
             None \<Rightarrow> Inl ValueError
           | Some target_doc \<Rightarrow> Inr (assemble_document section_config target_doc)))"

text \<open>Python's slice \<open>s[a:b]\<close>: a negative index counts from the end, and both are clamped.\<close>

definition slice_index :: "string \<Rightarrow> int \<Rightarrow> nat" where
  "slice_index s i =
     (if i < 0 then nat (max 0 (i + int (length s))) else min (nat i) (length s))"

definition py_slice :: "string \<Rightarrow> int \<Rightarrow> int \<Rightarrow> string" where
  "py_slice s a b = take (slice_index s b - slice_index s a) (drop (slice_index s a) s)"

subsection \<open>Auxiliary notions for the assembler and the tracker\<close>

text \<open>
  The offset a passage asks for (the cursor itself when none is declared), the filler that
  the padding branch inserts, and the end of the passage recorded before entry \<open>i\<close> (0 for
  the first entry).
\<close>

definition declared_or_cursor :: "assembler_state \<Rightarrow> bioc_passage \<Rightarrow> int" where
  "declared_or_cursor st p =
     (case psg_offset p of None \<Rightarrow> current_length st | Some off \<Rightarrow> off)"

definition filler :: "assembler_state \<Rightarrow> bioc_passage \<Rightarrow> string" where
  "filler st p = replicate (nat (declared_or_cursor st p - current_length st)) CHR '' ''"

definition previous_end :: "passage_metadata list \<Rightarrow> nat \<Rightarrow> int" where
  "previous_end ms i = (if i = 0 then 0 else pm_end (ms ! (i - 1)))"

definition good_entry ::
  "string \<Rightarrow> passage_metadata list \<Rightarrow> bioc_passage list \<Rightarrow> nat \<Rightarrow> bool" where
  "good_entry T ms ps i =
     (0 \<le> previous_end ms i \<and> previous_end ms i \<le> pm_start (ms ! i)
      \<and> pm_start (ms ! i) \<le> pm_end (ms ! i) \<and> pm_end (ms ! i) \<le> int (length T)
      \<and> py_slice T (pm_start (ms ! i)) (pm_end (ms ! i)) = passage_text_of (ps ! i)
      \<and> py_slice T (previous_end ms i) (pm_start (ms ! i))
           = replicate (nat (pm_start (ms ! i) - previous_end ms i)) CHR '' ''
      \<and> pm_length (ms ! i) = pm_end (ms ! i) - pm_start (ms ! i)
      \<and> pm_passage_index (ms ! i) = i)"

definition flush :: "section_info list \<times> section_info option \<Rightarrow> section_info list" where
  "flush r = fst r @ (case snd r of None \<Rightarrow> [] | Some c \<Rightarrow> [c])"

subsection \<open>Example inputs\<close>

definition plain_passage :: "string \<Rightarrow> int option \<Rightarrow> bioc_passage" where
  "plain_passage t off =
     \<lparr> psg_text = Some t, psg_offset = off, psg_infons = [], psg_annotations = [] \<rparr>"

definition scenario1_doc :: bioc_document where
  "scenario1_doc =
     \<lparr> doc_id = ''doc1'', doc_infons = [],
       doc_passages = [plain_passage ''Title'' (Some 0), plain_passage ''Body'' (Some 10)] \<rparr>"

definition trailing_doc :: bioc_document where
  "trailing_doc =
     \<lparr> doc_id = ''doc2'', doc_infons = [],
       doc_passages = [plain_passage ''Title'' (Some 0), plain_passage ''Body'' (Some 10),
                       plain_passage ''Tail'' None] \<rparr>"

definition run_entry :: "string \<Rightarrow> nat \<Rightarrow> int \<Rightarrow> int \<Rightarrow> passage_metadata" where
  "run_entry hint i s e =
     \<lparr> pm_section_type = Some hint, pm_passage_index = i, pm_start = s, pm_end = e,
       pm_length = e - s, pm_passage_label = None \<rparr>"

section \<open>Sentences and annotations (models.py)\<close>

text \<open>
  The dataclasses \<open>Annotation\<close> and \<open>SentenceAnnotation\<close>. The fields \<open>id\<close> and
  \<open>infons\<close> of an annotation are never set by the projection and are left out.
\<close>

record annotation =
  an_begin :: int
  an_end :: int
  an_label :: string
  an_text :: "string option"

record sentence_annotation =
  sa_text :: string
  sa_annotations :: "annotation list"
  sa_sentence_id :: "string option"
  sa_abs_start :: "int option"
  sa_abs_end :: "int option"

section \<open>Section Assigner (metadata.py, group_sentence_annotations_by_section)\<close>

text \<open>\<open>section.get("start", 0)\<close>, the sort key of the sections.\<close>

definition section_start_key :: "section_info \<Rightarrow> int" where
  "section_start_key section = (case sec_start section of None \<Rightarrow> 0 | Some v \<Rightarrow> v)"

definition sorted_sections :: "section_info list option \<Rightarrow> section_info list" where
  "sorted_sections sections_info =
     sort_key section_start_key (case sections_info of None \<Rightarrow> [] | Some l \<Rightarrow> l)"

text \<open>The containment test of the inner function, with its two \<open>continue\<close> cases.\<close>

definition section_contains :: "section_info \<Rightarrow> int \<Rightarrow> bool" where
  "section_contains section offset =
     (case sec_start section of
        None \<Rightarrow> False
      | Some start \<Rightarrow>
          (case sec_end section of
             None \<Rightarrow> False
           | Some end_offset \<Rightarrow> start \<le> offset \<and> offset < end_offset))"

definition label_or_unlabeled :: "section_info \<Rightarrow> string" where
  "label_or_unlabeled section =
     (case sec_section_type section of
        None \<Rightarrow> ''UNLABELED''
      | Some l \<Rightarrow> (if l = [] then ''UNLABELED'' else l))"

fun find_section_for_offset :: "section_info list \<Rightarrow> int \<Rightarrow> string" where
  "find_section_for_offset [] offset = ''UNLABELED''"
| "find_section_for_offset (section # rest) offset =
     (if section_contains section offset then label_or_unlabeled section
      else find_section_for_offset rest offset)"

text \<open>\<open>sent_ann.abs_start or 0\<close> and \<open>sent_ann.abs_end or abs_start\<close>.\<close>

definition abs_start_of :: "sentence_annotation \<Rightarrow> int" where
  "abs_start_of sent_ann = (case sa_abs_start sent_ann of None \<Rightarrow> 0 | Some v \<Rightarrow> v)"

definition abs_end_of :: "sentence_annotation \<Rightarrow> int" where
  "abs_end_of sent_ann =
     (case sa_abs_end sent_ann of
        None \<Rightarrow> abs_start_of sent_ann
      | Some v \<Rightarrow> (if v = 0 then abs_start_of sent_ann else v))"

text \<open>The section name computed in the body of the loop over the sentences.\<close>

definition section_name_for :: "section_info list \<Rightarrow> sentence_annotation \<Rightarrow> string" where
  "section_name_for sorted_secs sent_ann =
     (let abs_start = abs_start_of sent_ann;
          abs_end = abs_end_of sent_ann;
          section_name = find_section_for_offset sorted_secs abs_start;
          section_name =
            (if section_name = ''UNLABELED''
             then (let midpoint = (abs_start + abs_end) div 2
                   in find_section_for_offset sorted_secs midpoint)
             else section_name);
          section_name =
            (if section_name = ''UNLABELED'' \<and> abs_end > abs_start
             then find_section_for_offset sorted_secs (abs_end - 1)
             else section_name)
      in section_name)"

text \<open>
  \<open>grouped.setdefault(section_name, []).append(sent_ann)\<close> on an insertion-ordered
  dictionary, kept as an association list.
\<close>

fun setdefault_append :: "(string \<times> 'a list) list \<Rightarrow> string \<Rightarrow> 'a \<Rightarrow> (string \<times> 'a list) list" where
  "setdefault_append [] k v = [(k, [v])]"
| "setdefault_append ((k', vs) # rest) k v =
     (if k' = k then (k', vs @ [v]) # rest else (k', vs) # setdefault_append rest k v)"

definition group_sentence_annotations_by_section ::
  "sentence_annotation list \<Rightarrow> section_info list option
     \<Rightarrow> (string \<times> sentence_annotation list) list" where
  "group_sentence_annotations_by_section sentence_annotations sections_info =
     foldl (\<lambda>grouped sent_ann.
              setdefault_append grouped
                (section_name_for (sorted_sections sections_info) sent_ann) sent_ann)
           [] sentence_annotations"

subsection \<open>Example inputs of the Section Assigner\<close>

text \<open>
  A document of two passages, the first without a section type, the second of type ABSTRACT.
\<close>

definition unlabeled_then_abstract_doc :: bioc_document where
  "unlabeled_then_abstract_doc =
     \<lparr> doc_id = ''doc3'', doc_infons = [],
       doc_passages =
         [\<lparr> psg_text = Some ''0123456789'', psg_offset = Some 0, psg_infons = [],
             psg_annotations = [] \<rparr>,
          \<lparr> psg_text = Some ''abcdefghijklmnopqrst'', psg_offset = Some 10,
             psg_infons = [(''type'', ''ABSTRACT'')], psg_annotations = [] \<rparr>] \<rparr>"

definition range_of :: "string \<Rightarrow> int \<Rightarrow> int \<Rightarrow> section_info" where
  "range_of l s e =
     \<lparr> sec_section_type = Some l, sec_start = Some s, sec_end = Some e,
       sec_passage_indices = [] \<rparr>"

definition sentence_at :: "string \<Rightarrow> int \<Rightarrow> int \<Rightarrow> sentence_annotation" where
  "sentence_at t s e =
     \<lparr> sa_text = t, sa_annotations = [], sa_sentence_id = None,
       sa_abs_start = Some s, sa_abs_end = Some e \<rparr>"

section \<open>Offset Projector (utils.format_annotations, sentence.py, sections.py)\<close>

text \<open>
  \<open>format_annotations\<close>: the span and the label of an annotation dictionary, with the
  defaults of the nested \<open>get\<close> calls, then the Span Normalizer.
\<close>

definition empty_span_info :: span_info where
  "empty_span_info = \<lparr> si_begin = None, si_start = None, si_end = None, si_length = None \<rparr>"

definition annotation_span :: "annotation_dict \<Rightarrow> span" where
  "annotation_span annot =
     (let span_info = (case ad_span annot of None \<Rightarrow> empty_span_info | Some si \<Rightarrow> si);
          begin_offset =
            (case si_begin span_info of
               Some b \<Rightarrow> b
             | None \<Rightarrow> (case si_start span_info of Some b \<Rightarrow> b | None \<Rightarrow> 0));
          end_offset =
            (case si_end span_info of
               Some e \<Rightarrow> e
             | None \<Rightarrow> (case si_begin span_info of Some b \<Rightarrow> b | None \<Rightarrow> 0)
                        + (case si_length span_info of Some l \<Rightarrow> l | None \<Rightarrow> 0));
          label =
            (case ad_obj annot of
               Some l \<Rightarrow> l
             | None \<Rightarrow>
                 (case ad_label annot of
                    Some l \<Rightarrow> l
                  | None \<Rightarrow> (case ad_type annot of Some l \<Rightarrow> l | None \<Rightarrow> ''ENTITY'')))
      in (begin_offset, end_offset, label))"

definition format_annotations :: "string \<Rightarrow> annotation_dict list \<Rightarrow> string \<times> span list" where
  "format_annotations text_content annotations =
     (if annotations = [] then (text_content, [])
      else (text_content, remove_overlapping_spans (map annotation_span annotations)))"

text \<open>
  A sentence as the sentence service (spaCy) delivers it: its text and its character
  offsets in the text that was segmented.
\<close>

record spacy_sent =
  sent_text :: string
  sent_start_char :: int
  sent_end_char :: int

text \<open>Decimal digits of a natural number, for \<open>f"sentence_{sent_idx}"\<close>.\<close>

fun string_of_nat :: "nat \<Rightarrow> string" where
  "string_of_nat n =
     (if n < 10 then [char_of (48 + n)]
      else string_of_nat (n div 10) @ [char_of (48 + n mod 10)])"

declare string_of_nat.simps [simp del]

text \<open>\<open>create_sentence_annotations\<close>: the overlap test and the relative offsets.\<close>

definition span_overlaps :: "int \<Rightarrow> int \<Rightarrow> span \<Rightarrow> bool" where
  "span_overlaps sent_start sent_end sp =
     (span_begin sp < sent_end \<and> span_end sp > sent_start)"

definition project_span :: "spacy_sent \<Rightarrow> span \<Rightarrow> annotation" where
  "project_span sent sp =
     (let rel_start = max 0 (span_begin sp - sent_start_char sent);
          rel_end = min (int (length (sent_text sent))) (span_end sp - sent_start_char sent)
      in \<lparr> an_begin = rel_start,
           an_end = rel_end,
           an_label = span_label sp,
           an_text = (if rel_start < int (length (sent_text sent))
                      then Some (py_slice (sent_text sent) rel_start rel_end)
                      else None) \<rparr>)"

definition create_sentence_annotations ::
  "string \<Rightarrow> annotation_dict list \<Rightarrow> spacy_sent list \<Rightarrow> sentence_annotation list" where
  "create_sentence_annotations text_content annotations doc_sents =
     (let entity_spans = snd (format_annotations text_content annotations)
      in map (\<lambda>(sent_idx, sent).
                \<lparr> sa_text = sent_text sent,
                  sa_annotations =
                    map (project_span sent)
                      (filter (span_overlaps (sent_start_char sent) (sent_end_char sent))
                         entity_spans),
                  sa_sentence_id = Some (''sentence_'' @ string_of_nat sent_idx),
                  sa_abs_start = Some (sent_start_char sent),
                  sa_abs_end = Some (sent_end_char sent) \<rparr>)
             (enumerate 0 doc_sents))"

text \<open>
  \<open>process_passage_to_sentences\<close>: the sentences of one passage, offsets relative to the
  passage, with the first location of each annotation. \<open>str.strip\<close> removes the
  whitespace characters, of which those of the 8-bit character type are listed.
\<close>

record projected_dict =
  pd_start :: int
  pd_end :: int
  pd_label :: string
  pd_text :: "string option"

record processed_sentence =
  ps_text :: string
  ps_abs_start :: int
  ps_abs_end :: int
  ps_annotations :: "projected_dict list"

definition whitespace_chars :: "char list" where
  "whitespace_chars =
     [CHR '' '', CHR 0x09, CHR 0x0a, CHR 0x0b, CHR 0x0c, CHR 0x0d,
      CHR 0x1c, CHR 0x1d, CHR 0x1e, CHR 0x1f, CHR 0x85, CHR 0xa0]"

definition is_blank :: "string \<Rightarrow> bool" where
  "is_blank s = list_all (\<lambda>c. c \<in> set whitespace_chars) s"

definition project_location ::
  "string \<Rightarrow> int \<Rightarrow> bioc_annotation \<Rightarrow> bioc_location \<Rightarrow> projected_dict" where
  "project_location sent_text_value abs_sent_start ann loc =
     (let ann_abs_start = loc_offset loc;
          ann_abs_end = loc_offset loc + loc_length loc;
          rel_start = max 0 (ann_abs_start - abs_sent_start);
          rel_end = min (int (length sent_text_value)) (ann_abs_end - abs_sent_start)
      in \<lparr> pd_start = rel_start,
           pd_end = rel_end,
           pd_label = annotation_type (ann_infons ann),
           pd_text = ann_text ann \<rparr>)"

definition sentence_annotations_of ::
  "string \<Rightarrow> int \<Rightarrow> int \<Rightarrow> bioc_annotation list \<Rightarrow> projected_dict list" where
  "sentence_annotations_of sent_text_value abs_sent_start abs_sent_end passage_annotations =
     concat (map (\<lambda>ann.
        (case ann_locations ann of
           [] \<Rightarrow> []
         | loc # other_locations \<Rightarrow>
             (if loc_offset loc < abs_sent_end \<and> loc_offset loc + loc_length loc > abs_sent_start
              then [project_location sent_text_value abs_sent_start ann loc]
              else []))) passage_annotations)"

definition process_passage_to_sentences ::
  "string \<Rightarrow> bioc_annotation list \<Rightarrow> int \<Rightarrow> spacy_sent list \<Rightarrow> processed_sentence list" where
  "process_passage_to_sentences passage_text passage_annotations passage_offset doc_sents =
     (if passage_text = [] \<or> is_blank passage_text then []
      else
        map (\<lambda>sent.
               (let abs_sent_start = passage_offset + sent_start_char sent;
                    abs_sent_end = passage_offset + sent_end_char sent
                in \<lparr> ps_text = sent_text sent,
                     ps_abs_start = abs_sent_start,
                     ps_abs_end = abs_sent_end,
                     ps_annotations =
                       sentence_annotations_of (sent_text sent) abs_sent_start abs_sent_end
                         passage_annotations \<rparr>))
            doc_sents)"

subsection \<open>Example inputs of the Offset Projector\<close>

definition span_dict :: "int \<Rightarrow> int \<Rightarrow> string \<Rightarrow> annotation_dict" where
  "span_dict b e l =
     \<lparr> ad_span = Some \<lparr> si_begin = Some b, si_start = None, si_end = Some e, si_length = None \<rparr>,
       ad_obj = Some l, ad_label = None, ad_type = None, ad_text = None, ad_id = None \<rparr>"

definition digits_sentence :: spacy_sent where
  "digits_sentence = \<lparr> sent_text = ''0123456789'', sent_start_char = 0, sent_end_char = 10 \<rparr>"

definition abcde_sentence :: spacy_sent where
  "abcde_sentence = \<lparr> sent_text = ''abcde'', sent_start_char = 10, sent_end_char = 15 \<rparr>"

definition located :: "int \<Rightarrow> int \<Rightarrow> bioc_annotation" where
  "located off len =
     \<lparr> ann_locations = [\<lparr> loc_offset = off, loc_length = len \<rparr>], ann_infons = [],
       ann_text = None, ann_id = None \<rparr>"

section \<open>Resumable Batch Driver (processor.py)\<close>

subsection \<open>File names\<close>

text \<open>
  \<open>_sanitize_filename\<close>: lower case, every maximal run of characters outside
  \<open>[a-z0-9_-]\<close> replaced by one underscore, leading and trailing underscores stripped,
  \<open>"unknown"\<close> for an empty result. The flag of \<open>replace_unsafe_runs\<close> tells whether the
  previous character belonged to a run that is already replaced.
\<close>

definition safe_chars :: "char list" where
  "safe_chars = ''abcdefghijklmnopqrstuvwxyz0123456789_-''"

fun replace_unsafe_runs :: "bool \<Rightarrow> string \<Rightarrow> string" where
  "replace_unsafe_runs in_run [] = []"
| "replace_unsafe_runs in_run (c # cs) =
     (if c \<in> set safe_chars then c # replace_unsafe_runs False cs
      else if in_run then replace_unsafe_runs True cs
      else CHR ''_'' # replace_unsafe_runs True cs)"

definition strip_underscores :: "string \<Rightarrow> string" where
  "strip_underscores s =
     rev (dropWhile (\<lambda>c. c = CHR ''_'') (rev (dropWhile (\<lambda>c. c = CHR ''_'') s)))"

definition sanitize_filename :: "string \<Rightarrow> string" where
  "sanitize_filename name =
     (let safe_name = strip_underscores (replace_unsafe_runs False (lower name))
      in if safe_name = [] then ''unknown'' else safe_name)"

text \<open>The file name of \<open>_save_section_file\<close>.\<close>

definition section_file_name :: "string \<Rightarrow> string \<Rightarrow> string" where
  "section_file_name doc_id_value section_name =
     sanitize_filename doc_id_value @ ''_'' @ sanitize_filename section_name @ ''.json''"

text \<open>
  \<open>_save_section_file\<close>: serialising and writing may fail, which is caught and gives
  \<open>None\<close>; otherwise the path of the file, given here by its name in the output directory.
\<close>

definition save_section_file ::
  "(string \<Rightarrow> 'doc \<Rightarrow> bool) \<Rightarrow> 'doc \<Rightarrow> string \<Rightarrow> string \<Rightarrow> string option" where
  "save_section_file write_succeeds odinson_doc doc_id_value section_name =
     (let filename = section_file_name doc_id_value section_name
      in if write_succeeds filename odinson_doc then Some filename else None)"

subsection \<open>The resume scan\<close>

text \<open>
  \<open>glob("*.json")\<close> keeps the names that end in \<open>.json\<close>; \<open>stem\<close> drops that suffix
  (a file named just \<open>.json\<close> has no suffix); \<open>rsplit("_", 1)[0]\<close> is the part before the
  last underscore, or the whole string when there is none.
\<close>

definition is_json_name :: "string \<Rightarrow> bool" where
  "is_json_name name = (length name \<ge> 5 \<and> drop (length name - 5) name = ''.json'')"

definition stem :: "string \<Rightarrow> string" where
  "stem name = (if name = ''.json'' then name else take (length name - 5) name)"

definition before_last_underscore :: "string \<Rightarrow> string" where
  "before_last_underscore s =
     (if CHR ''_'' \<in> set s then rev (tl (dropWhile (\<lambda>c. c \<noteq> CHR ''_'') (rev s))) else s)"

text \<open>The inner loop over \<open>self._document_ids\<close> with its \<open>break\<close>.\<close>

definition match_doc_id :: "string list \<Rightarrow> string \<Rightarrow> string option" where
  "match_doc_id collection_ids potential_doc_id =
     find (\<lambda>d. potential_doc_id = sanitize_filename d \<or> potential_doc_id = d) collection_ids"

text \<open>The directory listing is \<open>None\<close> when the directory does not exist.\<close>

definition get_existing_doc_ids :: "string list \<Rightarrow> string list option \<Rightarrow> string set" where
  "get_existing_doc_ids collection_ids listing =
     (case listing of
        None \<Rightarrow> {}
      | Some names \<Rightarrow>
          set (List.map_filter
                 (\<lambda>name. match_doc_id collection_ids (before_last_underscore (stem name)))
                 (filter is_json_name names)))"

subsection \<open>Processing one document\<close>

datatype py_exception = PyException string

record 'doc processed_document =
  res_doc_id :: string
  res_sections :: "(string \<times> 'doc) list option"
  res_combined :: "'doc option"

text \<open>
  What the driver is given: the document ids of the collection, the two per-document work
  functions (an \<open>Exception\<close> they raise is the left summand), the outcome of writing a file
  and of creating the archive, the outcome of creating the output directory and its listing.
\<close>

record 'doc driver_env =
  collection_document_ids :: "string list"
  process_bioc_by_sections :: "string \<Rightarrow> py_exception + (string \<times> 'doc) list"
  convert_bioc_to_odinson :: "string \<Rightarrow> py_exception + 'doc"
  write_succeeds :: "string \<Rightarrow> 'doc \<Rightarrow> bool"
  archive_succeeds :: "string list \<Rightarrow> bool"
  mkdir_error :: "py_exception option"
  output_listing :: "string list"

definition process ::
  "'doc driver_env \<Rightarrow> string \<Rightarrow> bool \<Rightarrow> py_exception + 'doc processed_document" where
  "process env document_id by_sections =
     (if document_id \<notin> set (collection_document_ids env) then Inl (PyException ''ValueError'')
      else if by_sections then
        (case process_bioc_by_sections env document_id of
           Inl e \<Rightarrow> Inl e
         | Inr sections \<Rightarrow>
             Inr \<lparr> res_doc_id = document_id, res_sections = Some sections, res_combined = None \<rparr>)
      else
        (case convert_bioc_to_odinson env document_id of
           Inl e \<Rightarrow> Inl e
         | Inr combined \<Rightarrow>
             Inr \<lparr> res_doc_id = document_id, res_sections = None, res_combined = Some combined \<rparr>))"

text \<open>The files appended to \<open>saved_files\<close> for one processed document.\<close>

definition saved_for ::
  "'doc driver_env \<Rightarrow> 'doc processed_document \<Rightarrow> string \<Rightarrow> string list" where
  "saved_for env result doc_id_value =
     (if res_sections result \<noteq> None \<and> res_sections result \<noteq> Some [] then
        List.map_filter
          (\<lambda>(section_name, odinson_doc).
              save_section_file (write_succeeds env) odinson_doc doc_id_value section_name)
          (case res_sections result of None \<Rightarrow> [] | Some l \<Rightarrow> l)
      else
        (case res_combined result of
           None \<Rightarrow> []
         | Some combined \<Rightarrow>
             (case save_section_file (write_succeeds env) combined doc_id_value ''combined'' of
                None \<Rightarrow> []
              | Some file_path \<Rightarrow> [file_path])))"

subsection \<open>The batch loop of process_and_save\<close>

text \<open>
  The variables of the loop, and the calls made to the progress callback
  (index, total, document id, status). A callback returns \<open>None\<close> or raises.
\<close>

record driver_state =
  saved_files :: "string list"
  processed_count :: nat
  failed_count :: nat
  progress_calls :: "(nat \<times> nat \<times> string \<times> string) list"

type_synonym progress_callback = "nat \<Rightarrow> nat \<Rightarrow> string \<Rightarrow> string \<Rightarrow> py_exception option"

text \<open>
  The \<open>try\<close> block for one document: the state it leaves behind and the exception that
  ended it, if any.
\<close>

definition try_document ::
  "'doc driver_env \<Rightarrow> progress_callback option \<Rightarrow> bool \<Rightarrow> nat \<Rightarrow> driver_state
     \<Rightarrow> nat \<times> string \<Rightarrow> driver_state \<times> py_exception option" where
  "try_document env on_progress by_sections total_to_process st item =
     (let idx = fst item; doc_id_value = snd item
      in case process env doc_id_value by_sections of
           Inl e \<Rightarrow> (st, Some e)
         | Inr result \<Rightarrow>
             (let st1 = st \<lparr> saved_files := saved_files st @ saved_for env result doc_id_value \<rparr>;
                  st2 = st1 \<lparr> processed_count := processed_count st1 + 1 \<rparr>
              in case on_progress of
                   None \<Rightarrow> (st2, None)
                 | Some callback \<Rightarrow>
                     (st2 \<lparr> progress_calls := progress_calls st2 @
                              [(idx, total_to_process, doc_id_value, ''processed'')] \<rparr>,
                      callback idx total_to_process doc_id_value ''processed'')))"

text \<open>One iteration: the \<open>try\<close> block and the \<open>except Exception\<close> handler.\<close>

definition process_one ::
  "'doc driver_env \<Rightarrow> progress_callback option \<Rightarrow> bool \<Rightarrow> nat \<Rightarrow> driver_state
     \<Rightarrow> nat \<times> string \<Rightarrow> py_exception + driver_state" where
  "process_one env on_progress by_sections total_to_process st item =
     (case try_document env on_progress by_sections total_to_process st item of
        (st', None) \<Rightarrow> Inr st'
      | (st', Some e) \<Rightarrow>
          (let st1 = st' \<lparr> failed_count := failed_count st' + 1 \<rparr>
           in case on_progress of
                None \<Rightarrow> Inr st1
              | Some callback \<Rightarrow>
                  (case callback (fst item) total_to_process (snd item) ''failed'' of
                     Some raised \<Rightarrow> Inl raised
                   | None \<Rightarrow>
                       Inr (st1 \<lparr> progress_calls := progress_calls st1 @
                              [(fst item, total_to_process, snd item, ''failed'')] \<rparr>))))"

fun process_documents ::
  "'doc driver_env \<Rightarrow> progress_callback option \<Rightarrow> bool \<Rightarrow> nat \<Rightarrow> driver_state
     \<Rightarrow> (nat \<times> string) list \<Rightarrow> py_exception + driver_state" where
  "process_documents env on_progress by_sections total_to_process st [] = Inr st"
| "process_documents env on_progress by_sections total_to_process st (item # rest) =
     (case process_one env on_progress by_sections total_to_process st item of
        Inl e \<Rightarrow> Inl e
      | Inr st' \<Rightarrow> process_documents env on_progress by_sections total_to_process st' rest)"

text \<open>The documents left to process once the resume scan has removed the existing ones.\<close>

definition requested_ids :: "'doc driver_env \<Rightarrow> string list option \<Rightarrow> string list" where
  "requested_ids env document_ids =
     (case document_ids of
        None \<Rightarrow> collection_document_ids env
      | Some ids \<Rightarrow> (if ids = [] then collection_document_ids env else ids))"

definition ids_to_process :: "'doc driver_env \<Rightarrow> bool \<Rightarrow> string list option \<Rightarrow> string list" where
  "ids_to_process env resume document_ids =
     (if resume then
        filter (\<lambda>d. d \<notin> get_existing_doc_ids (collection_document_ids env)
                              (Some (output_listing env)))
               (requested_ids env document_ids)
      else requested_ids env document_ids)"

definition initial_driver_state :: driver_state where
  "initial_driver_state =
     \<lparr> saved_files = [], processed_count = 0, failed_count = 0, progress_calls = [] \<rparr>"

text \<open>
  \<open>process_and_save\<close>. The result is the final state of the loop variables; its
  \<open>saved_files\<close> is the list the method returns.
\<close>

definition process_and_save ::
  "'doc driver_env \<Rightarrow> bool \<Rightarrow> bool \<Rightarrow> bool \<Rightarrow> progress_callback option \<Rightarrow> string list option
     \<Rightarrow> py_exception + driver_state" where
  "process_and_save env by_sections resume compress on_progress document_ids =
     (case mkdir_error env of
        Some e \<Rightarrow> Inl e
      | None \<Rightarrow>
          (if requested_ids env document_ids = [] then Inr initial_driver_state
           else
             (let todo = ids_to_process env resume document_ids;
                  total_to_process = length todo
              in case process_documents env on_progress by_sections total_to_process
                        initial_driver_state (enumerate 1 todo) of
                   Inl e \<Rightarrow> Inl e
                 | Inr st \<Rightarrow>
                     (if compress \<and> saved_files st \<noteq> [] \<and> archive_succeeds env (saved_files st)
                      then Inr (st \<lparr> saved_files := saved_files st @ [''bioc_collection.tar.gz''] \<rparr>)
                      else Inr st))))"

subsection \<open>Outcome of one document, and example inputs of the driver\<close>

definition conversion_fails :: "'doc driver_env \<Rightarrow> bool \<Rightarrow> string \<Rightarrow> bool" where
  "conversion_fails env by_sections d = isl (process env d by_sections)"

definition files_of :: "'doc driver_env \<Rightarrow> bool \<Rightarrow> string \<Rightarrow> string list" where
  "files_of env by_sections d =
     (case process env d by_sections of Inl e \<Rightarrow> [] | Inr result \<Rightarrow> saved_for env result d)"

definition status_of :: "'doc driver_env \<Rightarrow> bool \<Rightarrow> string \<Rightarrow> string" where
  "status_of env by_sections d =
     (if conversion_fails env by_sections d then ''failed'' else ''processed'')"

text \<open>
  Whether the progress callback raises on a given call, whether the handler runs for a
  document (its conversion raised, or the callback raised when told \<open>processed\<close>), and
  the calls made to the callback for a document.
\<close>

definition callback_raises ::
  "progress_callback option \<Rightarrow> nat \<Rightarrow> nat \<Rightarrow> string \<Rightarrow> string \<Rightarrow> bool" where
  "callback_raises on_progress idx total_count d status =
     (case on_progress of None \<Rightarrow> False | Some callback \<Rightarrow> callback idx total_count d status \<noteq> None)"

definition item_failed ::
  "'doc driver_env \<Rightarrow> bool \<Rightarrow> progress_callback option \<Rightarrow> nat \<Rightarrow> nat \<times> string \<Rightarrow> bool" where
  "item_failed env by_sections on_progress total_count item =
     (conversion_fails env by_sections (snd item)
      \<or> callback_raises on_progress (fst item) total_count (snd item) ''processed'')"

definition item_calls ::
  "'doc driver_env \<Rightarrow> bool \<Rightarrow> progress_callback option \<Rightarrow> nat \<Rightarrow> nat \<times> string
     \<Rightarrow> (nat \<times> nat \<times> string \<times> string) list" where
  "item_calls env by_sections on_progress total_count item =
     (if on_progress = None then []
      else if conversion_fails env by_sections (snd item)
        then [(fst item, total_count, snd item, ''failed'')]
      else if callback_raises on_progress (fst item) total_count (snd item) ''processed''
        then [(fst item, total_count, snd item, ''processed''),
              (fst item, total_count, snd item, ''failed'')]
      else [(fst item, total_count, snd item, ''processed'')])"

text \<open>
  A callback that raises when told \<open>failed\<close>, and one that raises when told that document
  67890 is \<open>processed\<close>.
\<close>

definition raising_callback :: progress_callback where
  "raising_callback idx total_count doc_id_value status =
     (if status = ''failed'' then Some (PyException ''callback failed'') else None)"

definition fussy_callback :: progress_callback where
  "fussy_callback idx total_count doc_id_value status =
     (if status = ''processed'' \<and> doc_id_value = ''67890''
      then Some (PyException ''callback failed'') else None)"

text \<open>
  Three documents, the first of which fails in conversion; every write succeeds. The
  documents are stand-ins (natural numbers).
\<close>

definition failing_first_env :: "nat driver_env" where
  "failing_first_env =
     \<lparr> collection_document_ids = [''12345'', ''67890'', ''11111''],
       process_bioc_by_sections =
         (\<lambda>d. if d = ''12345'' then Inl (PyException ''Processing failed'')
               else if d = ''67890'' then Inr [(''TITLE'', 1)]
               else Inr [(''ABSTRACT'', 2)]),
       convert_bioc_to_odinson = (\<lambda>d. Inr 0),
       write_succeeds = (\<lambda>name odinson_doc. True),
       archive_succeeds = (\<lambda>files. True),
       mkdir_error = None,
       output_listing = [] \<rparr>"

text \<open>
  One document whose only section is named \<open>Results & Discussion\<close>, after a first run has
  written its file.
\<close>

definition rerun_env :: "nat driver_env" where
  "rerun_env =
     \<lparr> collection_document_ids = [''35215501''],
       process_bioc_by_sections = (\<lambda>d. Inr [(''Results & Discussion'', 1)]),
       convert_bioc_to_odinson = (\<lambda>d. Inr 0),
       write_succeeds = (\<lambda>name odinson_doc. True),
       archive_succeeds = (\<lambda>files. True),
       mkdir_error = None,
       output_listing = [section_file_name ''35215501'' ''Results & Discussion''] \<rparr>"

section \<open>Properties of the Span Normalizer\<close>

lemma keep_spans_greedy:
  "keep_spans acc xs = acc @ greedy_accept (last_end acc) xs"
proof (induction xs arbitrary: acc)
  case Nil
  show ?case by simp
next
  case (Cons x xs)
  show ?case
  proof (cases "acc = []")
    case True
    then show ?thesis by (simp add: Cons.IH last_end_def)
  next
    case False
    then show ?thesis by (simp add: Cons.IH last_end_def Let_def)
  qed
qed

lemma remove_overlapping_spans_greedy:
  "remove_overlapping_spans spans = greedy_accept None (sort_key span_begin spans)"
  by (simp add: remove_overlapping_spans_def keep_spans_greedy last_end_def)

text \<open>
  C6. The Span Normalizer is the reference algorithm: the input is sorted ascending by begin
  by a stable sort (the sorted list is a permutation of the input in which spans of equal
  begin keep their input order), and the greedy pass accepts a span iff its begin is at least
  the end of the last accepted span. Scenario 2 of the specification is the last conjunct.
\<close>

theorem remove_overlapping_spans_reference:
  "remove_overlapping_spans spans = reference_normalize spans
   \<and> sorted (map span_begin (sort_key span_begin spans))
   \<and> mset (sort_key span_begin spans) = mset spans
   \<and> (\<forall>k. filter (\<lambda>s. span_begin s = k) (sort_key span_begin spans)
          = filter (\<lambda>s. span_begin s = k) spans)
   \<and> remove_overlapping_spans [(0, 10, ''A''), (5, 15, ''B''), (20, 30, ''C'')]
        = [(0, 10, ''A''), (20, 30, ''C'')]"
proof -
  have scenario: "remove_overlapping_spans [(0, 10, ''A''), (5, 15, ''B''), (20, 30, ''C'')]
        = [(0, 10, ''A''), (20, 30, ''C'')]"
    by (simp add: remove_overlapping_spans_def span_begin_def span_end_def)
  have eq: "remove_overlapping_spans spans = reference_normalize spans"
    by (simp add: remove_overlapping_spans_greedy reference_normalize_def)
  have stable: "\<forall>k. filter (\<lambda>s. span_begin s = k) (sort_key span_begin spans)
          = filter (\<lambda>s. span_begin s = k) spans"
    by (simp add: sort_key_stable)
  from eq stable scenario show ?thesis by simp
qed

lemma greedy_accept_after:
  "sorted (map span_begin xs) \<Longrightarrow> y \<in> set (greedy_accept (Some e) xs) \<Longrightarrow> e \<le> span_begin y"
proof (induction xs arbitrary: e)
  case Nil
  then show ?case by simp
next
  case (Cons x xs)
  from Cons.prems(1) have sx: "sorted (map span_begin xs)"
    and bx: "\<forall>z \<in> set xs. span_begin x \<le> span_begin z"
    by simp_all
  show ?case
  proof (cases "span_begin x \<ge> e")
    case True
    with Cons.prems(2) have "y = x \<or> y \<in> set (greedy_accept (Some (span_end x)) xs)"
      by simp
    then show ?thesis
    proof
      assume "y = x"
      with True show ?thesis by simp
    next
      assume yin: "y \<in> set (greedy_accept (Some (span_end x)) xs)"
      have "set (greedy_accept (Some (span_end x)) xs) \<subseteq> set xs"
      proof -
        have "\<And>l. set (greedy_accept l xs) \<subseteq> set xs"
        proof -
          fix l show "set (greedy_accept l xs) \<subseteq> set xs"
            by (induction l xs rule: greedy_accept.induct) auto
        qed
        then show ?thesis .
      qed
      with yin have "y \<in> set xs" by blast
      with bx have "span_begin x \<le> span_begin y" by blast
      with True show ?thesis by linarith
    qed
  next
    case False
    with Cons.prems(2) have "y \<in> set (greedy_accept (Some e) xs)" by simp
    with Cons.IH [OF sx] show ?thesis .
  qed
qed

lemma greedy_accept_separated:
  "sorted (map span_begin xs) \<Longrightarrow>
   sorted_wrt (\<lambda>a b. span_end a \<le> span_begin b) (greedy_accept l xs)"
proof (induction l xs rule: greedy_accept.induct)
  case (1 l)
  show ?case by simp
next
  case (2 s rest)
  from 2 have sr: "sorted (map span_begin rest)" by simp
  with 2 show ?case using greedy_accept_after [OF sr] by auto
next
  case (3 e s rest)
  from 3 have sr: "sorted (map span_begin rest)" by simp
  with 3 show ?case using greedy_accept_after [OF sr] by auto
qed

text \<open>
  C7. The output of the Span Normalizer is pairwise non-overlapping, for every input list
  (degenerate spans, whose begin is not below their end, included): an earlier entry of the
  result ends at or before the begin of every later entry.
\<close>

theorem remove_overlapping_spans_pairwise:
  assumes "i < j" and "j < length (remove_overlapping_spans spans)"
  shows "span_end (remove_overlapping_spans spans ! i)
           \<le> span_begin (remove_overlapping_spans spans ! j)"
proof -
  have "sorted (map span_begin (sort_key span_begin spans))" by simp
  then have "sorted_wrt (\<lambda>a b. span_end a \<le> span_begin b) (remove_overlapping_spans spans)"
    unfolding remove_overlapping_spans_greedy by (rule greedy_accept_separated)
  with assms show ?thesis by (simp add: sorted_wrt_iff_nth_less)
qed

theorem remove_overlapping_spans_pairwise_witness:
  "(0::nat) < 1
   \<and> 1 < length (remove_overlapping_spans [(0, 10, ''A''), (12, 3, ''D''), (5, 15, ''B''), (20, 30, ''C'')])
   \<and> span_end (remove_overlapping_spans [(0, 10, ''A''), (12, 3, ''D''), (5, 15, ''B''), (20, 30, ''C'')] ! 0)
       \<le> span_begin (remove_overlapping_spans [(0, 10, ''A''), (12, 3, ''D''), (5, 15, ''B''), (20, 30, ''C'')] ! 1)"
proof -
  have r: "remove_overlapping_spans [(0, 10, ''A''), (12, 3, ''D''), (5, 15, ''B''), (20, 30, ''C'')]
        = [(0, 10, ''A''), (12, 3, ''D''), (20, 30, ''C'')]"
    by (simp add: remove_overlapping_spans_def span_begin_def span_end_def)
  have h1: "(0::nat) < 1" by simp
  have h2: "1 < length (remove_overlapping_spans [(0, 10, ''A''), (12, 3, ''D''), (5, 15, ''B''), (20, 30, ''C'')])"
    by (simp add: r)
  from remove_overlapping_spans_pairwise [OF h1 h2] h1 h2 show ?thesis by simp
qed

section \<open>Properties of the Section Boundary Tracker\<close>

lemma merge_flush: "merge_consecutive_sections ps = flush (merge_loop [] None ps)"
  by (auto simp: merge_consecutive_sections_def flush_def split: prod.splits option.splits)

lemma merge_loop_append:
  "merge_loop m c (xs @ ys) = (case merge_loop m c xs of (m', c') \<Rightarrow> merge_loop m' c' ys)"
  by (induction m c xs rule: merge_loop.induct) auto

lemma merge_loop_prefix:
  "merge_loop m c xs = (m @ fst (merge_loop [] c xs), snd (merge_loop [] c xs))"
proof (induction xs arbitrary: m c)
  case Nil show ?case by simp
next
  case (Cons p rest)
  show ?case
  proof (cases c)
    case None
    then show ?thesis using Cons.IH [of m "Some (start_section p)"] by simp
  next
    case (Some cur)
    show ?thesis
    proof (cases "sec_section_type cur = pm_section_type p")
      case True
      with Some show ?thesis using Cons.IH [of m "Some (extend_section cur p)"] by simp
    next
      case False
      with Some show ?thesis
        using Cons.IH [of "m @ [cur]" "Some (start_section p)"]
              Cons.IH [of "[cur]" "Some (start_section p)"] by simp
    qed
  qed
qed

lemma merge_loop_current:
  "xs \<noteq> [] \<Longrightarrow> \<exists>cur. snd (merge_loop m c xs) = Some cur \<and> sec_section_type cur = pm_section_type (last xs)"
proof (induction m c xs rule: merge_loop.induct)
  case (1 m c) then show ?case by simp
next
  case (2 m p rest)
  then show ?case by (cases rest) (auto simp: start_section_def)
next
  case (3 m cur p rest)
  then show ?case by (cases rest) (auto simp: start_section_def extend_section_def)
qed

lemma merge_single: "merge_consecutive_sections [p] = [start_section p]"
  by (simp add: merge_consecutive_sections_def)

lemma merge_snoc:
  assumes "ps \<noteq> []"
  shows "merge_consecutive_sections (ps @ [p]) =
        (if pm_section_type (last ps) = pm_section_type p
         then butlast (merge_consecutive_sections ps) @ [extend_section (last (merge_consecutive_sections ps)) p]
         else merge_consecutive_sections ps @ [start_section p])"
proof -
  obtain m c where mc: "merge_loop [] None ps = (m, c)" by (cases "merge_loop [] None ps")
  from merge_loop_current [OF assms, of "[]" None] mc obtain cur where
    c: "c = Some cur" and t: "sec_section_type cur = pm_section_type (last ps)" by auto
  have ms: "merge_consecutive_sections ps = m @ [cur]"
    by (simp add: merge_flush flush_def mc c)
  show ?thesis
    by (simp add: ms) (simp add: merge_flush flush_def merge_loop_append mc c t)
qed

lemma merge_split:
  assumes "xs \<noteq> []" "ys \<noteq> []" "pm_section_type (last xs) \<noteq> pm_section_type (hd ys)"
  shows "merge_consecutive_sections (xs @ ys) = merge_consecutive_sections xs @ merge_consecutive_sections ys"
proof -
  obtain m c where mc: "merge_loop [] None xs = (m, c)" by (cases "merge_loop [] None xs")
  from merge_loop_current [OF assms(1), of "[]" None] mc obtain cur where
    c: "c = Some cur" and t: "sec_section_type cur = pm_section_type (last xs)" by auto
  obtain y ys' where ys: "ys = y # ys'" using assms(2) by (cases ys) auto
  from assms(3) t ys have ne: "sec_section_type cur \<noteq> pm_section_type y" by simp
  have "merge_loop [] None (xs @ ys) = merge_loop (m @ [cur]) (Some (start_section y)) ys'"
    by (simp add: merge_loop_append mc c ys ne)
  also have "\<dots> = ((m @ [cur]) @ fst (merge_loop [] (Some (start_section y)) ys'), snd (merge_loop [] (Some (start_section y)) ys'))"
    by (rule merge_loop_prefix)
  finally show ?thesis
    by (simp add: merge_flush flush_def mc c ys)
qed


lemma map_butlast_last:
  "xs \<noteq> [] \<Longrightarrow> map f xs = map f (butlast xs) @ [f (last xs)]"
  by (induction xs) auto

lemma concat_map_butlast_last:
  "xs \<noteq> [] \<Longrightarrow> concat (map f xs) = concat (map f (butlast xs)) @ f (last xs)"
  by (induction xs) auto

lemma remdups_adj_snoc:
  "xs \<noteq> [] \<Longrightarrow> remdups_adj (xs @ [y]) = (if last xs = y then remdups_adj xs else remdups_adj xs @ [y])"
proof -
  assume "xs \<noteq> []"
  then have xs: "xs = butlast xs @ [last xs]" by simp
  have "remdups_adj (butlast xs @ [last xs, y])
      = remdups_adj (butlast xs @ [last xs]) @ (if last xs = y then [] else [y])"
    by (rule remdups_adj_append_two)
  then have "remdups_adj ((butlast xs @ [last xs]) @ [y])
      = remdups_adj (butlast xs @ [last xs]) @ (if last xs = y then [] else [y])"
    by simp
  with xs show ?thesis by simp
qed

lemma merge_last:
  assumes "ps \<noteq> []"
  shows "merge_consecutive_sections ps \<noteq> [] \<and> sec_section_type (last (merge_consecutive_sections ps)) = pm_section_type (last ps)"
proof -
  obtain m c where mc: "merge_loop [] None ps = (m, c)" by (cases "merge_loop [] None ps")
  from merge_loop_current [OF assms, of "[]" None] mc obtain cur where
    c: "c = Some cur" and t: "sec_section_type cur = pm_section_type (last ps)" by auto
  have ms: "merge_consecutive_sections ps = m @ [cur]"
    by (simp add: merge_flush flush_def mc c)
  with t show ?thesis by simp
qed

lemma merge_labels: "map sec_section_type (merge_consecutive_sections ps) = remdups_adj (map pm_section_type ps)"
proof (induction ps rule: rev_induct)
  case Nil show ?case by (simp add: merge_consecutive_sections_def)
next
  case (snoc p ps)
  show ?case
  proof (cases "ps = []")
    case True then show ?thesis by (simp add: merge_single start_section_def)
  next
    case False
    let ?M = "merge_consecutive_sections ps"
    from merge_last [OF False] have ne: "?M \<noteq> []"
      and lt: "sec_section_type (last ?M) = pm_section_type (last ps)" by simp_all
    from ne have M: "map sec_section_type ?M = map sec_section_type (butlast ?M) @ [sec_section_type (last ?M)]"
      by (rule map_butlast_last)
    have l: "last (map pm_section_type ps) = pm_section_type (last ps)"
      using False by (simp add: last_map)
    have r: "remdups_adj (map pm_section_type (ps @ [p]))
        = (if pm_section_type (last ps) = pm_section_type p then remdups_adj (map pm_section_type ps)
           else remdups_adj (map pm_section_type ps) @ [pm_section_type p])"
      using False remdups_adj_snoc [of "map pm_section_type ps" "pm_section_type p"] l by simp
    show ?thesis
    proof (cases "pm_section_type (last ps) = pm_section_type p")
      case True
      have "map sec_section_type (merge_consecutive_sections (ps @ [p]))
          = map sec_section_type (butlast ?M) @ [sec_section_type (last ?M)]"
        using True by (simp add: merge_snoc [OF False] extend_section_def)
      with M snoc.IH r True show ?thesis by simp
    next
      case neq: False
      have "map sec_section_type (merge_consecutive_sections (ps @ [p]))
          = map sec_section_type ?M @ [pm_section_type p]"
        using neq by (simp add: merge_snoc [OF False] start_section_def)
      with snoc.IH r neq show ?thesis by simp
    qed
  qed
qed

lemma merge_indices: "concat (map sec_passage_indices (merge_consecutive_sections ps)) = map pm_passage_index ps"
proof (induction ps rule: rev_induct)
  case Nil show ?case by (simp add: merge_consecutive_sections_def)
next
  case (snoc p ps)
  show ?case
  proof (cases "ps = []")
    case True then show ?thesis by (simp add: merge_single start_section_def)
  next
    case False
    let ?M = "merge_consecutive_sections ps"
    from merge_last [OF False] have ne: "?M \<noteq> []" by simp
    then have M: "concat (map sec_passage_indices ?M)
       = concat (map sec_passage_indices (butlast ?M)) @ sec_passage_indices (last ?M)"
      by (rule concat_map_butlast_last)
    show ?thesis
    proof (cases "pm_section_type (last ps) = pm_section_type p")
      case True
      have "concat (map sec_passage_indices (merge_consecutive_sections (ps @ [p])))
          = concat (map sec_passage_indices (butlast ?M)) @ sec_passage_indices (last ?M) @ [pm_passage_index p]"
        using True by (simp add: merge_snoc [OF False] extend_section_def)
      with M snoc.IH show ?thesis by simp
    next
      case neq: False
      have "concat (map sec_passage_indices (merge_consecutive_sections (ps @ [p])))
          = concat (map sec_passage_indices ?M) @ [pm_passage_index p]"
        using neq by (simp add: merge_snoc [OF False] start_section_def)
      with snoc.IH show ?thesis by simp
    qed
  qed
qed

text \<open>
  C8. The Section Boundary Tracker starts a range at the first passage; a further passage
  extends the current range (new end, its index appended) exactly when its hint equals the
  hint of the passage just before it, and starts a new range otherwise. Passage lists that
  meet at differing hints are merged independently, so two runs with the same label on either
  side of a differently labelled passage stay two ranges: the labels of the result are the
  hints with adjacent repetitions removed, and the passage indices are kept in order.
\<close>

theorem merge_consecutive_sections_runs:
  "merge_consecutive_sections [] = []
   \<and> merge_consecutive_sections [p] = [start_section p]
   \<and> (ps \<noteq> [] \<longrightarrow> merge_consecutive_sections (ps @ [p]) =
        (if pm_section_type (last ps) = pm_section_type p
         then butlast (merge_consecutive_sections ps)
                @ [extend_section (last (merge_consecutive_sections ps)) p]
         else merge_consecutive_sections ps @ [start_section p]))
   \<and> (xs \<noteq> [] \<and> ys \<noteq> [] \<and> pm_section_type (last xs) \<noteq> pm_section_type (hd ys) \<longrightarrow>
        merge_consecutive_sections (xs @ ys)
          = merge_consecutive_sections xs @ merge_consecutive_sections ys)
   \<and> map sec_section_type (merge_consecutive_sections ps) = remdups_adj (map pm_section_type ps)
   \<and> concat (map sec_passage_indices (merge_consecutive_sections ps)) = map pm_passage_index ps"
proof -
  have a: "merge_consecutive_sections [] = []"
    by (simp add: merge_consecutive_sections_def)
  have b: "merge_consecutive_sections [p] = [start_section p]"
    by (rule merge_single)
  have c: "ps \<noteq> [] \<longrightarrow> merge_consecutive_sections (ps @ [p]) =
        (if pm_section_type (last ps) = pm_section_type p
         then butlast (merge_consecutive_sections ps)
                @ [extend_section (last (merge_consecutive_sections ps)) p]
         else merge_consecutive_sections ps @ [start_section p])"
    using merge_snoc [of ps p] by blast
  have d: "xs \<noteq> [] \<and> ys \<noteq> [] \<and> pm_section_type (last xs) \<noteq> pm_section_type (hd ys) \<longrightarrow>
        merge_consecutive_sections (xs @ ys)
          = merge_consecutive_sections xs @ merge_consecutive_sections ys"
    using merge_split [of xs ys] by blast
  from a b c d merge_labels [of ps] merge_indices [of ps] show ?thesis by blast
qed

theorem merge_consecutive_sections_runs_witness:
  "[run_entry ''METHODS'' 0 0 10, run_entry ''METHODS'' 1 10 20] \<noteq> []
   \<and> [run_entry ''RESULTS'' 2 20 30, run_entry ''METHODS'' 3 30 40] \<noteq> []
   \<and> pm_section_type (last [run_entry ''METHODS'' 0 0 10, run_entry ''METHODS'' 1 10 20])
        \<noteq> pm_section_type (hd [run_entry ''RESULTS'' 2 20 30, run_entry ''METHODS'' 3 30 40])
   \<and> merge_consecutive_sections
         ([run_entry ''METHODS'' 0 0 10, run_entry ''METHODS'' 1 10 20]
            @ [run_entry ''RESULTS'' 2 20 30, run_entry ''METHODS'' 3 30 40])
       = [\<lparr> sec_section_type = Some ''METHODS'', sec_start = Some 0, sec_end = Some 20,
             sec_passage_indices = [0, 1] \<rparr>,
          \<lparr> sec_section_type = Some ''RESULTS'', sec_start = Some 20, sec_end = Some 30,
             sec_passage_indices = [2] \<rparr>,
          \<lparr> sec_section_type = Some ''METHODS'', sec_start = Some 30, sec_end = Some 40,
             sec_passage_indices = [3] \<rparr>]
   \<and> merge_consecutive_sections ([run_entry ''METHODS'' 0 0 10] @ [run_entry ''METHODS'' 1 10 20])
       = butlast (merge_consecutive_sections [run_entry ''METHODS'' 0 0 10])
           @ [extend_section (last (merge_consecutive_sections [run_entry ''METHODS'' 0 0 10]))
                (run_entry ''METHODS'' 1 10 20)]"
proof -
  have h: "[run_entry ''METHODS'' 0 0 10, run_entry ''METHODS'' 1 10 20] \<noteq> []
   \<and> [run_entry ''RESULTS'' 2 20 30, run_entry ''METHODS'' 3 30 40] \<noteq> []
   \<and> pm_section_type (last [run_entry ''METHODS'' 0 0 10, run_entry ''METHODS'' 1 10 20])
        \<noteq> pm_section_type (hd [run_entry ''RESULTS'' 2 20 30, run_entry ''METHODS'' 3 30 40])"
    by (simp add: run_entry_def)
  have ev: "merge_consecutive_sections [run_entry ''METHODS'' 0 0 10, run_entry ''METHODS'' 1 10 20]
              @ merge_consecutive_sections [run_entry ''RESULTS'' 2 20 30, run_entry ''METHODS'' 3 30 40]
     = [\<lparr> sec_section_type = Some ''METHODS'', sec_start = Some 0, sec_end = Some 20,
             sec_passage_indices = [0, 1] \<rparr>,
          \<lparr> sec_section_type = Some ''RESULTS'', sec_start = Some 20, sec_end = Some 30,
             sec_passage_indices = [2] \<rparr>,
          \<lparr> sec_section_type = Some ''METHODS'', sec_start = Some 30, sec_end = Some 40,
             sec_passage_indices = [3] \<rparr>]"
    by (simp add: merge_consecutive_sections_def run_entry_def start_section_def extend_section_def)
  have h2: "[run_entry ''METHODS'' 0 0 10] \<noteq> []
     \<and> pm_section_type (last [run_entry ''METHODS'' 0 0 10]) = pm_section_type (run_entry ''METHODS'' 1 10 20)"
    by (simp add: run_entry_def)
  from merge_consecutive_sections_runs
         [of "run_entry ''METHODS'' 1 10 20" "[run_entry ''METHODS'' 0 0 10]"
             "[run_entry ''METHODS'' 0 0 10, run_entry ''METHODS'' 1 10 20]"
             "[run_entry ''RESULTS'' 2 20 30, run_entry ''METHODS'' 3 30 40]"]
       h h2 ev
  show ?thesis by (simp del: append.simps)
qed

section \<open>Properties of the Document Assembler\<close>

lemma normalize_section_name_nonempty: "normalize_section_name t cfg \<noteq> []"
  by (auto simp: normalize_section_name_def split: option.splits)

lemma place_text:
  "assembled_text (snd (place_passage st p)) = assembled_text st @ filler st p"
  by (simp add: place_passage_def assembled_text_def filler_def declared_or_cursor_def Let_def)

lemma place_length:
  "current_length (snd (place_passage st p)) = current_length st + int (length (filler st p))"
  by (simp add: place_passage_def filler_def declared_or_cursor_def Let_def)

lemma place_meta:
  "metadata_sections (snd (place_passage st p)) = metadata_sections st"
  by (simp add: place_passage_def Let_def)

lemma place_offset:
  "fst (place_passage st p) = current_length (snd (place_passage st p))"
  by (simp add: place_passage_def Let_def)

lemma step_text:
  "assembled_text (assemble_passage cfg st (i, p)) = assembled_text st @ filler st p @ passage_text_of p"
  using place_text [of st p]
  by (simp add: assemble_passage_def Let_def assembled_text_def)

lemma step_length:
  "current_length (assemble_passage cfg st (i, p))
     = current_length st + int (length (filler st p)) + int (length (passage_text_of p))"
  using place_length [of st p]
  by (simp add: assemble_passage_def Let_def)

lemma step_meta:
  "metadata_sections (assemble_passage cfg st (i, p)) = metadata_sections st @
     [\<lparr> pm_section_type = Some (normalize_section_name (passage_section_type p) cfg),
        pm_passage_index = i,
        pm_start = current_length st + int (length (filler st p)),
        pm_end = current_length st + int (length (filler st p)) + int (length (passage_text_of p)),
        pm_length = int (length (passage_text_of p)),
        pm_passage_label = map_of (psg_infons p) ''type'' \<rparr>]"
  using place_length [of st p] place_meta [of st p]
  by (simp add: assemble_passage_def Let_def normalize_section_name_nonempty)

lemma assemble_passages_snoc:
  "assemble_passages cfg (qs @ [p]) = assemble_passage cfg (assemble_passages cfg qs) (length qs, p)"
  by (simp add: assemble_passages_def enumerate_append_eq)

lemma assemble_passages_Nil: "assemble_passages cfg [] = initial_state"
  by (simp add: assemble_passages_def)

lemma cursor_is_length:
  "current_length (assemble_passages cfg ps) = int (length (assembled_text (assemble_passages cfg ps)))"
proof (induction ps rule: rev_induct)
  case Nil show ?case by (simp add: assemble_passages_Nil initial_state_def assembled_text_def)
next
  case (snoc p ps)
  then show ?case by (simp add: assemble_passages_snoc step_text step_length)
qed

lemma metadata_count:
  "length (metadata_sections (assemble_passages cfg ps)) = length ps"
proof (induction ps rule: rev_induct)
  case Nil show ?case by (simp add: assemble_passages_Nil initial_state_def)
next
  case (snoc p ps)
  then show ?case by (simp add: assemble_passages_snoc step_meta)
qed

lemma cursor_is_last_end:
  "previous_end (metadata_sections (assemble_passages cfg ps)) (length ps)
     = current_length (assemble_passages cfg ps)"
proof (cases ps rule: rev_cases)
  case Nil then show ?thesis by (simp add: previous_end_def assemble_passages_Nil initial_state_def)
next
  case (snoc qs p)
  then show ?thesis
    by (simp add: previous_end_def assemble_passages_snoc step_meta step_length metadata_count nth_append)
qed

lemma py_slice_nonneg:
  "0 \<le> a \<Longrightarrow> 0 \<le> b \<Longrightarrow> py_slice s a b = take (min (nat b) (length s) - min (nat a) (length s)) (drop (min (nat a) (length s)) s)"
  by (simp add: py_slice_def slice_index_def)

lemma py_slice_append_left:
  "0 \<le> a \<Longrightarrow> a \<le> b \<Longrightarrow> b \<le> int (length T) \<Longrightarrow> py_slice (T @ X) a b = py_slice T a b"
proof -
  assume a: "0 \<le> a" and ab: "a \<le> b" and b: "b \<le> int (length T)"
  from a ab b have n: "nat a \<le> nat b" "nat b \<le> length T" by linarith+
  from a ab have "0 \<le> b" by simp
  with a n show ?thesis by (simp add: py_slice_nonneg min_absorb1)
qed

lemma py_slice_middle:
  "py_slice (T @ X @ Y) (int (length T)) (int (length T) + int (length X)) = X"
  by (simp add: py_slice_nonneg min_def nat_add_distrib)

lemma entries_good:
  "i < length ps \<Longrightarrow>
   good_entry (assembled_text (assemble_passages cfg ps))
              (metadata_sections (assemble_passages cfg ps)) ps i"
proof (induction ps arbitrary: i rule: rev_induct)
  case Nil then show ?case by simp
next
  case (snoc p ps)
  let ?st = "assemble_passages cfg ps"
  let ?T = "assembled_text ?st"
  let ?ms = "metadata_sections ?st"
  let ?F = "filler ?st p"
  let ?X = "passage_text_of p"
  let ?m = "\<lparr> pm_section_type = Some (normalize_section_name (passage_section_type p) cfg),
        pm_passage_index = length ps,
        pm_start = current_length ?st + int (length ?F),
        pm_end = current_length ?st + int (length ?F) + int (length ?X),
        pm_length = int (length ?X),
        pm_passage_label = map_of (psg_infons p) ''type'' \<rparr>"
  have T': "assembled_text (assemble_passages cfg (ps @ [p])) = ?T @ ?F @ ?X"
    by (simp add: assemble_passages_snoc step_text)
  have ms': "metadata_sections (assemble_passages cfg (ps @ [p])) = ?ms @ [?m]"
    by (simp add: assemble_passages_snoc step_meta)
  have len: "length ?ms = length ps" by (rule metadata_count)
  have cur: "current_length ?st = int (length ?T)" by (rule cursor_is_length)
  have prev: "previous_end ?ms (length ps) = current_length ?st" by (rule cursor_is_last_end)
  show ?case
  proof (cases "i < length ps")
    case True
    from snoc.IH [OF True] have g: "good_entry ?T ?ms ps i" .
    have nth: "(?ms @ [?m]) ! i = ?ms ! i" using True len by (simp add: nth_append)
    have pe: "previous_end (?ms @ [?m]) i = previous_end ?ms i"
      using True len by (auto simp add: previous_end_def nth_append)
    have ps_i: "(ps @ [p]) ! i = ps ! i" using True by (simp add: nth_append)
    from g have b: "0 \<le> previous_end ?ms i" "previous_end ?ms i \<le> pm_start (?ms ! i)"
      "pm_start (?ms ! i) \<le> pm_end (?ms ! i)" "pm_end (?ms ! i) \<le> int (length ?T)"
      by (simp_all add: good_entry_def)
    have s1: "py_slice (?T @ ?F @ ?X) (pm_start (?ms ! i)) (pm_end (?ms ! i))
        = py_slice ?T (pm_start (?ms ! i)) (pm_end (?ms ! i))"
      using b by (intro py_slice_append_left) linarith+
    have s2: "py_slice (?T @ ?F @ ?X) (previous_end ?ms i) (pm_start (?ms ! i))
        = py_slice ?T (previous_end ?ms i) (pm_start (?ms ! i))"
      using b by (intro py_slice_append_left) linarith+
    from g b show ?thesis
      unfolding T' ms' good_entry_def nth pe ps_i s1 s2 by simp
  next
    case False
    with snoc.prems have i: "i = length ps" by simp
    have nth: "(?ms @ [?m]) ! i = ?m" using i len by (simp add: nth_append)
    have pe: "previous_end (?ms @ [?m]) i = int (length ?T)"
    proof (cases "ps = []")
      case True
      then show ?thesis using i by (simp add: previous_end_def assemble_passages_Nil initial_state_def assembled_text_def)
    next
      case ne: False
      then have "previous_end (?ms @ [?m]) i = previous_end ?ms (length ps)"
        using i len by (simp add: previous_end_def nth_append)
      with prev cur show ?thesis by simp
    qed
    have ps_i: "(ps @ [p]) ! i = p" using i by simp
    have s1: "py_slice (?T @ ?F @ ?X) (int (length ?T) + int (length ?F)) (int (length ?T) + int (length ?F) + int (length ?X)) = ?X"
      using py_slice_middle [of "?T @ ?F" ?X "[]"] by simp
    have s2: "py_slice (?T @ ?F @ ?X) (int (length ?T)) (int (length ?T) + int (length ?F)) = ?F"
      by (rule py_slice_middle)
    have F: "?F = replicate (length ?F) CHR '' ''" by (simp add: filler_def)
    show ?thesis
      unfolding T' ms' good_entry_def nth pe ps_i
      using s1 s2 F cur i by simp
  qed
qed

lemma metadata_prefix:
  "take (length qs) (metadata_sections (assemble_passages cfg (qs @ rs)))
     = metadata_sections (assemble_passages cfg qs)"
proof (induction rs rule: rev_induct)
  case Nil
  show ?case using metadata_count [of cfg qs] by simp
next
  case (snoc r rs)
  have "assemble_passages cfg (qs @ rs @ [r])
      = assemble_passage cfg (assemble_passages cfg (qs @ rs)) (length (qs @ rs), r)"
    using assemble_passages_snoc [of cfg "qs @ rs" r] by simp
  then show ?case
    using snoc.IH metadata_count [of cfg "qs @ rs"] by (simp add: step_meta)
qed

lemmas assembler_eval =
  assemble_document_def sorted_passages_def offset_key_def assemble_passages_def
  assemble_passage_def place_passage_def initial_state_def assembled_text_def
  passage_text_of_def passage_section_type_def py_or_def truthy_def normalize_section_name_def
  merge_consecutive_sections_def start_section_def extend_section_def Let_def enumerate_eq_zip
  eval_nat_numeral plain_passage_def

lemma scenario1_eval:
  "assemble_document None scenario1_doc =
     \<lparr> dd_doc_id = ''doc1'', dd_text = ''Title     Body'', dd_annotations = [], dd_infons = [],
       dd_passages =
         [\<lparr> pm_section_type = Some ''UNLABELED'', pm_passage_index = 0, pm_start = 0, pm_end = 5,
             pm_length = 5, pm_passage_label = None \<rparr>,
          \<lparr> pm_section_type = Some ''UNLABELED'', pm_passage_index = 1, pm_start = 10, pm_end = 14,
             pm_length = 4, pm_passage_label = None \<rparr>],
       dd_sections =
         [\<lparr> sec_section_type = Some ''UNLABELED'', sec_start = Some 0, sec_end = Some 14,
             sec_passage_indices = [0, 1] \<rparr>] \<rparr>"
  by (simp add: assemble_document_def scenario1_doc_def plain_passage_def sorted_passages_def
        offset_key_def assemble_passages_def assemble_passage_def place_passage_def
        initial_state_def assembled_text_def passage_text_of_def passage_section_type_def
        py_or_def truthy_def normalize_section_name_def merge_consecutive_sections_def
        start_section_def extend_section_def Let_def enumerate_eq_zip eval_nat_numeral)

text \<open>
  C4. With the cursor starting at 0 and equal to the length of the text assembled so far, a
  passage whose declared offset lies beyond the cursor is preceded by that many spaces and
  starts at its declared offset; a passage whose declared offset lies before the cursor
  starts at the cursor and the assembled text is only extended; the recorded start and end
  are the cursor before and after the passage text is appended. Scenario 1 of the
  specification is the last conjunct.
\<close>

theorem assemble_passage_cursor_policy:
  assumes "st = assemble_passages cfg qs"
    and "st' = assemble_passages cfg (qs @ [p])"
    and "psg_offset p = Some declared_offset"
    and "cursor = current_length st"
    and "m = last (metadata_sections st')"
  shows "current_length (assemble_passages cfg []) = 0
    \<and> cursor = int (length (assembled_text st))
    \<and> (declared_offset > cursor \<longrightarrow>
          assembled_text st'
            = assembled_text st @ replicate (nat (declared_offset - cursor)) CHR '' '' @ passage_text_of p
          \<and> pm_start m = declared_offset)
    \<and> (declared_offset < cursor \<longrightarrow>
          assembled_text st' = assembled_text st @ passage_text_of p
          \<and> fst (place_passage st p) = cursor
          \<and> pm_start m = cursor)
    \<and> (declared_offset = cursor \<longrightarrow>
          assembled_text st' = assembled_text st @ passage_text_of p \<and> pm_start m = cursor)
    \<and> metadata_sections st' = metadata_sections st @ [m]
    \<and> pm_start m = current_length (snd (place_passage st p))
    \<and> pm_end m = pm_start m + int (length (passage_text_of p))
    \<and> pm_end m = current_length st'
    \<and> (case load_bioc_document (Some [scenario1_doc]) ''doc1'' None of
          Inl e \<Rightarrow> False
        | Inr dd \<Rightarrow> dd_text dd = ''Title     Body''
                   \<and> map (\<lambda>e. (pm_start e, pm_end e)) (dd_passages dd) = [(0, 5), (10, 14)])"
proof -
  have st': "st' = assemble_passage cfg st (length qs, p)"
    using assms(1,2) by (simp add: assemble_passages_snoc)
  have a: "current_length (assemble_passages cfg []) = 0"
    by (simp add: assemble_passages_Nil initial_state_def)
  have b: "cursor = int (length (assembled_text st))"
    using assms(1,4) by (simp add: cursor_is_length)
  have fl: "filler st p = replicate (nat (declared_offset - cursor)) CHR '' ''"
    using assms(3,4) by (simp add: filler_def declared_or_cursor_def)
  have tx: "assembled_text st' = assembled_text st @ replicate (nat (declared_offset - cursor)) CHR '' '' @ passage_text_of p"
    using fl by (simp add: st' step_text)
  have ms: "metadata_sections st' = metadata_sections st @ [m]"
    using assms(5) by (simp add: st' step_meta)
  have m: "m = \<lparr> pm_section_type = Some (normalize_section_name (passage_section_type p) cfg),
        pm_passage_index = length qs,
        pm_start = current_length st + int (length (filler st p)),
        pm_end = current_length st + int (length (filler st p)) + int (length (passage_text_of p)),
        pm_length = int (length (passage_text_of p)),
        pm_passage_label = map_of (psg_infons p) ''type'' \<rparr>"
    using assms(5) by (simp add: st' step_meta)
  have start: "pm_start m = cursor + int (nat (declared_offset - cursor))"
    using fl assms(4) by (simp add: m)
  have c: "declared_offset > cursor \<longrightarrow>
          assembled_text st'
            = assembled_text st @ replicate (nat (declared_offset - cursor)) CHR '' '' @ passage_text_of p
          \<and> pm_start m = declared_offset"
    using tx start by simp
  have d: "declared_offset < cursor \<longrightarrow>
          assembled_text st' = assembled_text st @ passage_text_of p
          \<and> fst (place_passage st p) = cursor
          \<and> pm_start m = cursor"
    using tx start assms(3,4) by (simp add: place_passage_def)
  have e: "declared_offset = cursor \<longrightarrow>
          assembled_text st' = assembled_text st @ passage_text_of p \<and> pm_start m = cursor"
    using tx start by simp
  have f: "pm_start m = current_length (snd (place_passage st p))"
    by (simp add: m place_length)
  have g: "pm_end m = pm_start m + int (length (passage_text_of p))"
    by (simp add: m)
  have h: "pm_end m = current_length st'"
    by (simp add: m st' step_length)
  have i: "(case load_bioc_document (Some [scenario1_doc]) ''doc1'' None of
          Inl e \<Rightarrow> False
        | Inr dd \<Rightarrow> dd_text dd = ''Title     Body''
                   \<and> map (\<lambda>e. (pm_start e, pm_end e)) (dd_passages dd) = [(0, 5), (10, 14)])"
    by (simp add: load_bioc_document_def scenario1_eval) (simp add: scenario1_doc_def)
  from a b c d e ms f g h i show ?thesis by blast
qed

theorem assemble_passage_cursor_policy_witness:
  "psg_offset (plain_passage ''Body'' (Some 10)) = Some 10
   \<and> 10 > current_length (assemble_passages None [plain_passage ''Title'' (Some 0)])
   \<and> assembled_text (assemble_passages None ([plain_passage ''Title'' (Some 0)] @ [plain_passage ''Body'' (Some 10)]))
        = assembled_text (assemble_passages None [plain_passage ''Title'' (Some 0)])
            @ replicate (nat (10 - current_length (assemble_passages None [plain_passage ''Title'' (Some 0)]))) CHR '' ''
            @ passage_text_of (plain_passage ''Body'' (Some 10))
   \<and> pm_start (last (metadata_sections
         (assemble_passages None ([plain_passage ''Title'' (Some 0)] @ [plain_passage ''Body'' (Some 10)])))) = 10"
proof -
  have h: "psg_offset (plain_passage ''Body'' (Some 10)) = Some 10"
    by (simp add: plain_passage_def)
  have c: "10 > current_length (assemble_passages None [plain_passage ''Title'' (Some 0)])"
    by (simp add: assembler_eval)
  from assemble_passage_cursor_policy [OF refl refl h refl refl, of None "[plain_passage ''Title'' (Some 0)]"] h c
  show ?thesis by blast
qed

text \<open>
  C10. The assembled text and the passage metadata agree: there is one entry per passage, in
  sorted order; slicing the text with the recorded start and end of an entry gives the text of
  its passage, the recorded length is end minus start, and the text between the end of the
  previous entry (0 for the first) and the start of this one consists of spaces only. The text
  ends at the end of the last entry.
\<close>

theorem assembled_text_matches_offsets:
  assumes "dd = assemble_document cfg doc"
    and "i < length (doc_passages doc)"
    and "m = dd_passages dd ! i"
    and "sp = sorted_passages (doc_passages doc) ! i"
  shows "length (dd_passages dd) = length (doc_passages doc)
    \<and> py_slice (dd_text dd) (pm_start m) (pm_end m) = passage_text_of sp
    \<and> pm_length m = pm_end m - pm_start m
    \<and> pm_length m = int (length (passage_text_of sp))
    \<and> pm_passage_index m = i
    \<and> 0 \<le> previous_end (dd_passages dd) i
    \<and> previous_end (dd_passages dd) i \<le> pm_start m
    \<and> pm_start m \<le> pm_end m
    \<and> pm_end m \<le> int (length (dd_text dd))
    \<and> py_slice (dd_text dd) (previous_end (dd_passages dd) i) (pm_start m)
         = replicate (nat (pm_start m - previous_end (dd_passages dd) i)) CHR '' ''
    \<and> previous_end (dd_passages dd) (length (doc_passages doc)) = int (length (dd_text dd))"
proof -
  let ?ps = "sorted_passages (doc_passages doc)"
  let ?st = "assemble_passages cfg ?ps"
  have len: "length ?ps = length (doc_passages doc)" by (simp add: sorted_passages_def)
  have t: "dd_text dd = assembled_text ?st" and ms: "dd_passages dd = metadata_sections ?st"
    using assms(1) by (simp_all add: assemble_document_def Let_def)
  from assms(2) len have i: "i < length ?ps" by simp
  from entries_good [OF i, of cfg]
  have g: "good_entry (dd_text dd) (dd_passages dd) ?ps i" by (simp add: t ms)
  have n: "length (dd_passages dd) = length (doc_passages doc)"
    using metadata_count [of cfg ?ps] len by (simp add: ms)
  have e: "previous_end (dd_passages dd) (length (doc_passages doc)) = int (length (dd_text dd))"
    using cursor_is_last_end [of cfg ?ps] cursor_is_length [of cfg ?ps] len by (simp add: t ms)
  have sl: "py_slice (dd_text dd) (pm_start m) (pm_end m) = passage_text_of sp"
    using g assms(3,4) by (simp add: good_entry_def)
  have b: "0 \<le> pm_start m" "pm_start m \<le> pm_end m" "pm_end m \<le> int (length (dd_text dd))"
    using g assms(3) by (simp_all add: good_entry_def)
  have "length (py_slice (dd_text dd) (pm_start m) (pm_end m)) = nat (pm_end m - pm_start m)"
    using b by (simp add: py_slice_nonneg)
  with sl b have l: "int (length (passage_text_of sp)) = pm_end m - pm_start m" by simp
  from g n e l assms(3,4) show ?thesis by (simp add: good_entry_def)
qed

theorem assembled_text_matches_offsets_witness:
  "(1::nat) < length (doc_passages scenario1_doc)
   \<and> py_slice (dd_text (assemble_document None scenario1_doc)) 10 14 = ''Body''
   \<and> py_slice (dd_text (assemble_document None scenario1_doc)) 5 10 = ''     ''
   \<and> dd_passages (assemble_document None scenario1_doc) ! 1
        = \<lparr> pm_section_type = Some ''UNLABELED'', pm_passage_index = 1, pm_start = 10,
            pm_end = 14, pm_length = 4, pm_passage_label = None \<rparr>"
proof -
  have h: "(1::nat) < length (doc_passages scenario1_doc)" by (simp add: scenario1_doc_def)
  have sp: "sorted_passages (doc_passages scenario1_doc) ! 1 = plain_passage ''Body'' (Some 10)"
    by (simp add: scenario1_doc_def sorted_passages_def offset_key_def plain_passage_def)
  have pe: "previous_end (dd_passages (assemble_document None scenario1_doc)) 1 = 5"
    by (simp add: scenario1_eval previous_end_def)
  from assembled_text_matches_offsets [OF refl h refl refl, of None] h
  show ?thesis
    unfolding sp pe by (simp add: scenario1_eval passage_text_of_def plain_passage_def eval_nat_numeral)
qed

text \<open>
  C5, as stated, fails: a passage without a declared offset that follows, in input order,
  passages with positive offsets is sorted with key 0 and so is assembled ahead of them. For
  the passages Title at 0, Body at 10 and Tail without offset, Tail is assembled second and
  starts at 5, not at 14 where the cursor stands after Title and Body.
\<close>

theorem missing_offset_position_counterexample:
  "sorted_passages (doc_passages trailing_doc)
     = [plain_passage ''Title'' (Some 0), plain_passage ''Tail'' None, plain_passage ''Body'' (Some 10)]
   \<and> pm_start (dd_passages (assemble_document None trailing_doc) ! 1) = 5
   \<and> pm_end (dd_passages (assemble_document None trailing_doc) ! 1) = 9
   \<and> dd_text (assemble_document None trailing_doc) = ''TitleTail Body''
   \<and> current_length (assemble_passages None
         (sorted_passages [plain_passage ''Title'' (Some 0), plain_passage ''Body'' (Some 10)])) = 14
   \<and> pm_start (dd_passages (assemble_document None trailing_doc) ! 1)
        \<noteq> current_length (assemble_passages None
             (sorted_passages [plain_passage ''Title'' (Some 0), plain_passage ''Body'' (Some 10)]))"
  by (simp add: assembler_eval trailing_doc_def)

text \<open>
  C5, amended. The passages are sorted by a stable sort on the declared offset, a missing
  offset counting as key 0. A passage without a declared offset then continues from the
  cursor: it starts, without filler, where the cursor stands after the passages that precede
  it in the sorted order.
\<close>

theorem missing_offset_continues_in_sorted_order:
  assumes "sorted_passages (doc_passages doc) = qs @ p # rs"
    and "psg_offset p = None"
    and "dd = assemble_document cfg doc"
  shows "sorted (map offset_key (sorted_passages (doc_passages doc)))
    \<and> mset (sorted_passages (doc_passages doc)) = mset (doc_passages doc)
    \<and> (\<forall>k. filter (\<lambda>q. offset_key q = k) (sorted_passages (doc_passages doc))
           = filter (\<lambda>q. offset_key q = k) (doc_passages doc))
    \<and> offset_key p = 0
    \<and> pm_start (dd_passages dd ! length qs) = current_length (assemble_passages cfg qs)
    \<and> pm_end (dd_passages dd ! length qs)
         = current_length (assemble_passages cfg qs) + int (length (passage_text_of p))
    \<and> assembled_text (assemble_passages cfg (qs @ [p]))
         = assembled_text (assemble_passages cfg qs) @ passage_text_of p"
proof -
  let ?st = "assemble_passages cfg qs"
  have fl: "filler ?st p = []"
    using assms(2) by (simp add: filler_def declared_or_cursor_def)
  have a: "sorted (map offset_key (sorted_passages (doc_passages doc)))"
    by (simp add: sorted_passages_def)
  have b: "mset (sorted_passages (doc_passages doc)) = mset (doc_passages doc)"
    by (simp add: sorted_passages_def)
  have c: "\<forall>k. filter (\<lambda>q. offset_key q = k) (sorted_passages (doc_passages doc))
           = filter (\<lambda>q. offset_key q = k) (doc_passages doc)"
    by (simp add: sorted_passages_def sort_key_stable)
  have d: "offset_key p = 0" using assms(2) by (simp add: offset_key_def)
  have ms: "dd_passages dd = metadata_sections (assemble_passages cfg ((qs @ [p]) @ rs))"
    using assms(1,3) by (simp add: assemble_document_def Let_def)
  have "take (length (qs @ [p])) (dd_passages dd) = metadata_sections (assemble_passages cfg (qs @ [p]))"
    unfolding ms by (rule metadata_prefix)
  then have "take (length (qs @ [p])) (dd_passages dd) ! length qs
      = metadata_sections (assemble_passages cfg (qs @ [p])) ! length qs" by simp
  then have nth: "dd_passages dd ! length qs
      = metadata_sections (assemble_passages cfg (qs @ [p])) ! length qs" by simp
  have e: "pm_start (dd_passages dd ! length qs) = current_length ?st"
    using fl metadata_count [of cfg qs]
    by (simp add: nth assemble_passages_snoc step_meta nth_append)
  have f: "pm_end (dd_passages dd ! length qs)
         = current_length ?st + int (length (passage_text_of p))"
    using fl metadata_count [of cfg qs]
    by (simp add: nth assemble_passages_snoc step_meta nth_append)
  have g: "assembled_text (assemble_passages cfg (qs @ [p]))
         = assembled_text ?st @ passage_text_of p"
    using fl by (simp add: assemble_passages_snoc step_text)
  from a b c d e f g show ?thesis by blast
qed

theorem missing_offset_continues_in_sorted_order_witness:
  "sorted_passages (doc_passages trailing_doc)
     = [plain_passage ''Title'' (Some 0)] @ plain_passage ''Tail'' None # [plain_passage ''Body'' (Some 10)]
   \<and> psg_offset (plain_passage ''Tail'' None) = None
   \<and> pm_start (dd_passages (assemble_document None trailing_doc) ! length [plain_passage ''Title'' (Some 0)])
       = current_length (assemble_passages None [plain_passage ''Title'' (Some 0)])
   \<and> current_length (assemble_passages None [plain_passage ''Title'' (Some 0)]) = 5"
proof -
  have h1: "sorted_passages (doc_passages trailing_doc)
     = [plain_passage ''Title'' (Some 0)] @ plain_passage ''Tail'' None # [plain_passage ''Body'' (Some 10)]"
    by (simp add: trailing_doc_def sorted_passages_def offset_key_def plain_passage_def)
  have h2: "psg_offset (plain_passage ''Tail'' None) = None" by (simp add: plain_passage_def)
  have c: "current_length (assemble_passages None [plain_passage ''Title'' (Some 0)]) = 5"
    by (simp add: assembler_eval)
  from missing_offset_continues_in_sorted_order [OF h1 h2 refl, of None] h1 h2 c
  show ?thesis by blast
qed

section \<open>Properties of the Section Assigner\<close>

lemma find_section_for_offset_find:
  "find_section_for_offset secs off =
     (case find (\<lambda>sec. section_contains sec off) secs of
        None \<Rightarrow> ''UNLABELED'' | Some sec \<Rightarrow> label_or_unlabeled sec)"
  by (induction secs) auto

lemma setdefault_append_map_of:
  "map_of (setdefault_append g k v)
     = (map_of g)(k \<mapsto> (case map_of g k of None \<Rightarrow> [v] | Some vs \<Rightarrow> vs @ [v]))"
  by (induction g k v rule: setdefault_append.induct) (auto simp: fun_eq_iff)

lemma grouped_keeps:
  "map_of g k = Some vs \<Longrightarrow> x \<in> set vs \<Longrightarrow>
   \<exists>vs'. map_of (foldl (\<lambda>grouped s. setdefault_append grouped (f s) s) g sents) k = Some vs'
         \<and> x \<in> set vs'"
proof (induction sents arbitrary: g vs)
  case Nil then show ?case by simp
next
  case (Cons s sents)
  have "\<exists>ws. map_of (setdefault_append g (f s) s) k = Some ws \<and> x \<in> set ws"
    using Cons.prems by (auto simp: setdefault_append_map_of)
  then obtain ws where "map_of (setdefault_append g (f s) s) k = Some ws" "x \<in> set ws" by blast
  from Cons.IH [OF this] show ?case by simp
qed

lemma grouped_contains:
  "x \<in> set sents \<Longrightarrow>
   \<exists>vs. map_of (foldl (\<lambda>grouped s. setdefault_append grouped (f s) s) g sents) (f x) = Some vs
        \<and> x \<in> set vs"
proof (induction sents arbitrary: g)
  case Nil then show ?case by simp
next
  case (Cons s sents)
  show ?case
  proof (cases "x = s")
    case True
    have "\<exists>ws. map_of (setdefault_append g (f s) s) (f s) = Some ws \<and> s \<in> set ws"
      by (auto simp: setdefault_append_map_of split: option.splits)
    then obtain ws where "map_of (setdefault_append g (f s) s) (f s) = Some ws" "s \<in> set ws" by blast
    from grouped_keeps [OF this, of f sents] True show ?thesis by simp
  next
    case False
    with Cons.prems have "x \<in> set sents" by simp
    from Cons.IH [OF this] show ?thesis by simp
  qed
qed

text \<open>
  C2. The Section Assigner does not stop at the first successful step when the first range
  that contains the start of the sentence is labelled \<open>UNLABELED\<close>: that label is also the
  value the lookup returns when nothing matches, so the midpoint and end-1 tests run although
  the start test found a range. The loader emits such ranges for passages without a section
  type. With ranges UNLABELED [0,10) and ABSTRACT [10,30), a sentence from 5 to 25 starts in
  the first range and is assigned ABSTRACT through its midpoint 15, while a sentence from 5 to
  8 is assigned UNLABELED: the result depends on the end of the sentence.
\<close>

theorem section_assigner_unlabeled_range_falls_through:
  "dd_sections (assemble_document None unlabeled_then_abstract_doc)
     = [range_of ''UNLABELED'' 0 10 \<lparr> sec_passage_indices := [0] \<rparr>,
        range_of ''ABSTRACT'' 10 30 \<lparr> sec_passage_indices := [1] \<rparr>]
   \<and> section_contains (range_of ''UNLABELED'' 0 10) (abs_start_of (sentence_at ''s'' 5 25))
   \<and> label_or_unlabeled (range_of ''UNLABELED'' 0 10) = ''UNLABELED''
   \<and> find_section_for_offset
        (sorted_sections (Some (dd_sections (assemble_document None unlabeled_then_abstract_doc))))
        (abs_start_of (sentence_at ''s'' 5 25)) = ''UNLABELED''
   \<and> section_name_for
        (sorted_sections (Some (dd_sections (assemble_document None unlabeled_then_abstract_doc))))
        (sentence_at ''s'' 5 25) = ''ABSTRACT''
   \<and> section_name_for
        (sorted_sections (Some (dd_sections (assemble_document None unlabeled_then_abstract_doc))))
        (sentence_at ''s'' 5 8) = ''UNLABELED''
   \<and> group_sentence_annotations_by_section [sentence_at ''s'' 5 25]
        (Some (dd_sections (assemble_document None unlabeled_then_abstract_doc)))
       = [(''ABSTRACT'', [sentence_at ''s'' 5 25])]"
proof -
  have secs: "dd_sections (assemble_document None unlabeled_then_abstract_doc)
     = [range_of ''UNLABELED'' 0 10 \<lparr> sec_passage_indices := [0] \<rparr>,
        range_of ''ABSTRACT'' 10 30 \<lparr> sec_passage_indices := [1] \<rparr>]"
    by (simp add: assembler_eval unlabeled_then_abstract_doc_def range_of_def)
  show ?thesis
    unfolding secs
    by (simp add: section_name_for_def sorted_sections_def section_start_key_def range_of_def
          sentence_at_def abs_start_of_def abs_end_of_def section_contains_def
          label_or_unlabeled_def group_sentence_annotations_by_section_def Let_def)
qed

text \<open>
  Where the first range that contains the start of the sentence has a label that is neither
  empty nor \<open>UNLABELED\<close>, the assigner does stop at the start test: for a section list
  ordered by start that label is assigned, whatever the end of the sentence is, and the
  sentence is filed under it.
\<close>

lemma section_assigner_first_match:
  assumes "sorted (map section_start_key sections)"
    and "find (\<lambda>s. section_contains s (abs_start_of sent)) sections = Some sec"
    and "sec_section_type sec = Some label"
    and "label \<noteq> []"
    and "label \<noteq> ''UNLABELED''"
  shows "section_name_for (sorted_sections (Some sections)) sent = label
    \<and> (\<forall>e. section_name_for (sorted_sections (Some sections)) (sent\<lparr>sa_abs_end := e\<rparr>) = label)
    \<and> (\<forall>sents. sent \<in> set sents \<longrightarrow>
          (\<exists>vs. map_of (group_sentence_annotations_by_section sents (Some sections)) label = Some vs
                \<and> sent \<in> set vs))"
proof -
  have ss: "sorted_sections (Some sections) = sections"
    using assms(1) by (simp add: sorted_sections_def sort_key_id_if_sorted)
  have l: "label_or_unlabeled sec = label"
    using assms(3,4) by (simp add: label_or_unlabeled_def)
  have f: "find_section_for_offset sections (abs_start_of sent) = label"
    using assms(2) l by (simp add: find_section_for_offset_find)
  have a: "section_name_for (sorted_sections (Some sections)) sent = label"
    using f assms(5) by (simp add: ss section_name_for_def Let_def)
  have b: "\<forall>e. section_name_for (sorted_sections (Some sections)) (sent\<lparr>sa_abs_end := e\<rparr>) = label"
  proof
    fix e
    have "abs_start_of (sent\<lparr>sa_abs_end := e\<rparr>) = abs_start_of sent"
      by (simp add: abs_start_of_def)
    then show "section_name_for (sorted_sections (Some sections)) (sent\<lparr>sa_abs_end := e\<rparr>) = label"
      using f assms(5) by (simp add: ss section_name_for_def Let_def)
  qed
  have c: "\<forall>sents. sent \<in> set sents \<longrightarrow>
          (\<exists>vs. map_of (group_sentence_annotations_by_section sents (Some sections)) label = Some vs
                \<and> sent \<in> set vs)"
  proof (intro allI impI)
    fix sents assume "sent \<in> set sents"
    from grouped_contains [OF this, of "section_name_for (sorted_sections (Some sections))" "[]"] a
    show "\<exists>vs. map_of (group_sentence_annotations_by_section sents (Some sections)) label = Some vs
                \<and> sent \<in> set vs"
      by (simp add: group_sentence_annotations_by_section_def)
  qed
  from a b c show ?thesis by blast
qed

lemma section_assigner_first_match_example:
  "sorted (map section_start_key [range_of ''TITLE'' 0 10, range_of ''ABSTRACT'' 10 30])
   \<and> find (\<lambda>s. section_contains s (abs_start_of (sentence_at ''s'' 25 32)))
        [range_of ''TITLE'' 0 10, range_of ''ABSTRACT'' 10 30] = Some (range_of ''ABSTRACT'' 10 30)
   \<and> sec_section_type (range_of ''ABSTRACT'' 10 30) = Some ''ABSTRACT''
   \<and> ''ABSTRACT'' \<noteq> []
   \<and> ''ABSTRACT'' \<noteq> ''UNLABELED''
   \<and> section_name_for (sorted_sections (Some [range_of ''TITLE'' 0 10, range_of ''ABSTRACT'' 10 30]))
        (sentence_at ''s'' 25 32) = ''ABSTRACT''"
proof -
  have h1: "sorted (map section_start_key [range_of ''TITLE'' 0 10, range_of ''ABSTRACT'' 10 30])"
    by (simp add: section_start_key_def range_of_def)
  have h2: "find (\<lambda>s. section_contains s (abs_start_of (sentence_at ''s'' 25 32)))
        [range_of ''TITLE'' 0 10, range_of ''ABSTRACT'' 10 30] = Some (range_of ''ABSTRACT'' 10 30)"
    by (simp add: section_contains_def range_of_def abs_start_of_def sentence_at_def)
  have h3: "sec_section_type (range_of ''ABSTRACT'' 10 30) = Some ''ABSTRACT''"
    by (simp add: range_of_def)
  have h4: "''ABSTRACT'' \<noteq> []" by simp
  have h5: "''ABSTRACT'' \<noteq> ''UNLABELED''" by simp
  from section_assigner_first_match [OF h1 h2 h3 h4 h5] h1 h2 h3 h4 h5
  show ?thesis by blast
qed

section \<open>Properties of the Offset Projector\<close>

lemma greedy_accept_subset: "set (greedy_accept l xs) \<subseteq> set xs"
  by (induction l xs rule: greedy_accept.induct) auto

lemma remove_overlapping_spans_subset: "set (remove_overlapping_spans spans) \<subseteq> set spans"
  using greedy_accept_subset [of None "sort_key span_begin spans"]
  by (simp add: remove_overlapping_spans_greedy)

lemma format_annotations_subset:
  "set (snd (format_annotations t annotations)) \<subseteq> annotation_span ` set annotations"
  using remove_overlapping_spans_subset [of "map annotation_span annotations"]
  by (auto simp: format_annotations_def)

lemma project_span_contained:
  assumes "int (length (sent_text s)) = sent_end_char s - sent_start_char s"
    and "span_overlaps (sent_start_char s) (sent_end_char s) sp"
    and "span_begin sp \<le> span_end sp"
  shows "0 \<le> an_begin (project_span s sp) \<and> an_begin (project_span s sp) \<le> an_end (project_span s sp)
    \<and> an_end (project_span s sp) \<le> int (length (sent_text s))"
  using assms by (simp add: project_span_def span_overlaps_def Let_def)

lemma project_location_contained:
  assumes "int (length t) = e - s"
    and "loc_offset loc < p + e" and "loc_offset loc + loc_length loc > p + s"
    and "0 \<le> loc_length loc"
  shows "0 \<le> pd_start (project_location t (p + s) ann loc)
    \<and> pd_start (project_location t (p + s) ann loc) \<le> pd_end (project_location t (p + s) ann loc)
    \<and> pd_end (project_location t (p + s) ann loc) \<le> int (length t)"
  using assms by (simp add: project_location_def Let_def)

lemma sentence_annotations_of_member:
  assumes "d \<in> set (sentence_annotations_of t a b anns)"
  shows "\<exists>ann loc rest. ann \<in> set anns \<and> ann_locations ann = loc # rest
      \<and> loc_offset loc < b \<and> loc_offset loc + loc_length loc > a
      \<and> d = project_location t a ann loc"
proof -
  from assms obtain ann where ann: "ann \<in> set anns"
    and d: "d \<in> set (case ann_locations ann of
           [] \<Rightarrow> []
         | loc # other_locations \<Rightarrow>
             (if loc_offset loc < b \<and> loc_offset loc + loc_length loc > a
              then [project_location t a ann loc]
              else []))"
    by (auto simp: sentence_annotations_of_def)
  show ?thesis
  proof (cases "ann_locations ann")
    case Nil
    with d show ?thesis by simp
  next
    case (Cons loc rest)
    with d have "loc_offset loc < b \<and> loc_offset loc + loc_length loc > a"
      and "d = project_location t a ann loc"
      by (auto split: if_splits)
    with ann Cons show ?thesis by blast
  qed
qed

lemmas projector_eval =
  create_sentence_annotations_def format_annotations_def remove_overlapping_spans_def
  annotation_span_def span_dict_def project_span_def span_overlaps_def span_begin_def
  span_end_def span_label_def py_slice_def slice_index_def Let_def enumerate_eq_zip
  process_passage_to_sentences_def sentence_annotations_of_def project_location_def located_def
  annotation_type_def is_blank_def whitespace_chars_def digits_sentence_def abcde_sentence_def

text \<open>
  C1, as stated, fails for a degenerate annotation whose begin lies above its end: the begin
  is only bounded below by 0 and the end only above by the sentence length, so the pair keeps
  its inverted order. The span from 5 to 3 overlaps the sentence from 0 to 10 by the overlap
  test and is projected to begin 5 and end 3, in \<open>create_sentence_annotations\<close> and in
  \<open>process_passage_to_sentences\<close> alike.
\<close>

theorem projection_degenerate_counterexample:
  "map sa_annotations
      (create_sentence_annotations ''0123456789'' [span_dict 5 3 ''GENE''] [digits_sentence])
     = [[\<lparr> an_begin = 5, an_end = 3, an_label = ''GENE'', an_text = Some [] \<rparr>]]
   \<and> map ps_annotations
      (process_passage_to_sentences ''0123456789'' [located 5 (- 2)] 0 [digits_sentence])
     = [[\<lparr> pd_start = 5, pd_end = 3, pd_label = ''ENTITY'', pd_text = None \<rparr>]]
   \<and> \<not> (an_begin (hd (hd (map sa_annotations
             (create_sentence_annotations ''0123456789'' [span_dict 5 3 ''GENE''] [digits_sentence]))))
         \<le> an_end (hd (hd (map sa_annotations
             (create_sentence_annotations ''0123456789'' [span_dict 5 3 ''GENE''] [digits_sentence])))))"
  by (simp add: projector_eval)

lemma sentence_annotations_of_present:
  assumes "ann \<in> set anns" and "ann_locations ann = loc # rest"
    and "loc_offset loc < b" and "loc_offset loc + loc_length loc > a"
  shows "project_location t a ann loc \<in> set (sentence_annotations_of t a b anns)"
  using assms by (force simp: sentence_annotations_of_def)

text \<open>
  C1, amended. Every projected annotation that either function produces is the projection of
  an overlapping pair of a sentence and an annotation span. For every such pair whose span has
  its begin at or below its end (zero-width spans included) and whose sentence text is as long
  as the distance between the sentence's end and start offsets, the projection of the pair is
  among the annotations produced for that sentence and satisfies
  0 <= rel_begin <= rel_end <= len(sentence.text), whatever the other spans and sentences are.
\<close>

theorem projection_containment:
  assumes "s \<in> set doc_sents"
    and "int (length (sent_text s)) = sent_end_char s - sent_start_char s"
  shows
    "(\<forall>sp \<in> set (snd (format_annotations text_content annotations)).
        span_overlaps (sent_start_char s) (sent_end_char s) sp \<and> span_begin sp \<le> span_end sp \<longrightarrow>
          0 \<le> an_begin (project_span s sp)
          \<and> an_begin (project_span s sp) \<le> an_end (project_span s sp)
          \<and> an_end (project_span s sp) \<le> int (length (sent_text s))
          \<and> (\<exists>sa \<in> set (create_sentence_annotations text_content annotations doc_sents).
                sa_text sa = sent_text s \<and> project_span s sp \<in> set (sa_annotations sa)))
     \<and> (\<forall>ann \<in> set passage_annotations. \<forall>loc rest.
          ann_locations ann = loc # rest
          \<and> loc_offset loc < passage_offset + sent_end_char s
          \<and> loc_offset loc + loc_length loc > passage_offset + sent_start_char s
          \<and> 0 \<le> loc_length loc \<longrightarrow>
            0 \<le> pd_start (project_location (sent_text s) (passage_offset + sent_start_char s) ann loc)
            \<and> pd_start (project_location (sent_text s) (passage_offset + sent_start_char s) ann loc)
                 \<le> pd_end (project_location (sent_text s) (passage_offset + sent_start_char s) ann loc)
            \<and> pd_end (project_location (sent_text s) (passage_offset + sent_start_char s) ann loc)
                 \<le> int (length (sent_text s))
            \<and> (passage_text \<noteq> [] \<and> \<not> is_blank passage_text \<longrightarrow>
                 (\<exists>ps \<in> set (process_passage_to_sentences passage_text passage_annotations
                                 passage_offset doc_sents).
                    ps_text ps = sent_text s
                    \<and> project_location (sent_text s) (passage_offset + sent_start_char s) ann loc
                          \<in> set (ps_annotations ps))))
     \<and> (\<forall>sa \<in> set (create_sentence_annotations text_content annotations doc_sents).
          \<forall>a \<in> set (sa_annotations sa).
            \<exists>s' \<in> set doc_sents. \<exists>sp \<in> set (snd (format_annotations text_content annotations)).
              span_overlaps (sent_start_char s') (sent_end_char s') sp
              \<and> sa_text sa = sent_text s' \<and> a = project_span s' sp)
     \<and> (\<forall>ps \<in> set (process_passage_to_sentences passage_text passage_annotations
                         passage_offset doc_sents).
          \<forall>d \<in> set (ps_annotations ps).
            \<exists>s' \<in> set doc_sents. \<exists>ann \<in> set passage_annotations. \<exists>loc rest.
              ann_locations ann = loc # rest
              \<and> loc_offset loc < passage_offset + sent_end_char s'
              \<and> loc_offset loc + loc_length loc > passage_offset + sent_start_char s'
              \<and> ps_text ps = sent_text s'
              \<and> d = project_location (sent_text s') (passage_offset + sent_start_char s') ann loc)"
proof -
  let ?spans = "snd (format_annotations text_content annotations)"
  let ?out = "create_sentence_annotations text_content annotations doc_sents"
  let ?pout = "process_passage_to_sentences passage_text passage_annotations passage_offset doc_sents"
  from assms(1) obtain i where i: "i < length doc_sents" and si: "doc_sents ! i = s"
    by (auto simp: in_set_conv_nth)
  let ?sa = "\<lparr> sa_text = sent_text s,
                  sa_annotations = map (project_span s)
                      (filter (span_overlaps (sent_start_char s) (sent_end_char s)) ?spans),
                  sa_sentence_id = Some (''sentence_'' @ string_of_nat i),
                  sa_abs_start = Some (sent_start_char s),
                  sa_abs_end = Some (sent_end_char s) \<rparr>"
  have "(i, s) \<in> set (enumerate 0 doc_sents)"
    using i si by (simp add: in_set_enumerate_eq)
  then have sa_in: "?sa \<in> set ?out"
    by (force simp: create_sentence_annotations_def Let_def)
  have first: "\<forall>sp \<in> set ?spans.
        span_overlaps (sent_start_char s) (sent_end_char s) sp \<and> span_begin sp \<le> span_end sp \<longrightarrow>
          0 \<le> an_begin (project_span s sp)
          \<and> an_begin (project_span s sp) \<le> an_end (project_span s sp)
          \<and> an_end (project_span s sp) \<le> int (length (sent_text s))
          \<and> (\<exists>sa \<in> set ?out. sa_text sa = sent_text s \<and> project_span s sp \<in> set (sa_annotations sa))"
  proof (intro ballI impI)
    fix sp assume sp: "sp \<in> set ?spans"
      and h: "span_overlaps (sent_start_char s) (sent_end_char s) sp \<and> span_begin sp \<le> span_end sp"
    from h have ov: "span_overlaps (sent_start_char s) (sent_end_char s) sp"
      and le: "span_begin sp \<le> span_end sp" by simp_all
    have "project_span s sp \<in> set (sa_annotations ?sa)" using sp ov by simp
    with sa_in have ex: "\<exists>sa \<in> set ?out. sa_text sa = sent_text s \<and> project_span s sp \<in> set (sa_annotations sa)"
      by (intro bexI [of _ ?sa]) simp_all
    from project_span_contained [OF assms(2) ov le] ex
    show "0 \<le> an_begin (project_span s sp)
          \<and> an_begin (project_span s sp) \<le> an_end (project_span s sp)
          \<and> an_end (project_span s sp) \<le> int (length (sent_text s))
          \<and> (\<exists>sa \<in> set ?out. sa_text sa = sent_text s \<and> project_span s sp \<in> set (sa_annotations sa))"
      by blast
  qed
  let ?ps = "\<lparr> ps_text = sent_text s,
                     ps_abs_start = passage_offset + sent_start_char s,
                     ps_abs_end = passage_offset + sent_end_char s,
                     ps_annotations =
                       sentence_annotations_of (sent_text s) (passage_offset + sent_start_char s)
                         (passage_offset + sent_end_char s) passage_annotations \<rparr>"
  have ps_in: "passage_text \<noteq> [] \<and> \<not> is_blank passage_text \<longrightarrow> ?ps \<in> set ?pout"
    using assms(1) by (auto simp: process_passage_to_sentences_def Let_def)
  have second: "\<forall>ann \<in> set passage_annotations. \<forall>loc rest.
          ann_locations ann = loc # rest
          \<and> loc_offset loc < passage_offset + sent_end_char s
          \<and> loc_offset loc + loc_length loc > passage_offset + sent_start_char s
          \<and> 0 \<le> loc_length loc \<longrightarrow>
            0 \<le> pd_start (project_location (sent_text s) (passage_offset + sent_start_char s) ann loc)
            \<and> pd_start (project_location (sent_text s) (passage_offset + sent_start_char s) ann loc)
                 \<le> pd_end (project_location (sent_text s) (passage_offset + sent_start_char s) ann loc)
            \<and> pd_end (project_location (sent_text s) (passage_offset + sent_start_char s) ann loc)
                 \<le> int (length (sent_text s))
            \<and> (passage_text \<noteq> [] \<and> \<not> is_blank passage_text \<longrightarrow>
                 (\<exists>ps \<in> set ?pout.
                    ps_text ps = sent_text s
                    \<and> project_location (sent_text s) (passage_offset + sent_start_char s) ann loc
                          \<in> set (ps_annotations ps)))"
  proof (intro ballI allI impI)
    fix ann loc rest
    assume ann: "ann \<in> set passage_annotations"
      and h: "ann_locations ann = loc # rest
          \<and> loc_offset loc < passage_offset + sent_end_char s
          \<and> loc_offset loc + loc_length loc > passage_offset + sent_start_char s
          \<and> 0 \<le> loc_length loc"
    from h have locs: "ann_locations ann = loc # rest"
      and ov: "loc_offset loc < passage_offset + sent_end_char s"
              "loc_offset loc + loc_length loc > passage_offset + sent_start_char s"
      and nn: "0 \<le> loc_length loc" by simp_all
    let ?d = "project_location (sent_text s) (passage_offset + sent_start_char s) ann loc"
    from sentence_annotations_of_present [OF ann locs ov]
    have "?d \<in> set (ps_annotations ?ps)" by simp
    with ps_in have ex: "passage_text \<noteq> [] \<and> \<not> is_blank passage_text \<longrightarrow>
        (\<exists>ps \<in> set ?pout. ps_text ps = sent_text s \<and> ?d \<in> set (ps_annotations ps))"
      by (intro impI bexI [of _ ?ps]) simp_all
    from project_location_contained [OF assms(2) ov nn] ex
    show "0 \<le> pd_start ?d \<and> pd_start ?d \<le> pd_end ?d \<and> pd_end ?d \<le> int (length (sent_text s))
        \<and> (passage_text \<noteq> [] \<and> \<not> is_blank passage_text \<longrightarrow>
            (\<exists>ps \<in> set ?pout. ps_text ps = sent_text s \<and> ?d \<in> set (ps_annotations ps)))"
      by blast
  qed
  have third: "\<forall>sa \<in> set ?out. \<forall>a \<in> set (sa_annotations sa).
            \<exists>s' \<in> set doc_sents. \<exists>sp \<in> set ?spans.
              span_overlaps (sent_start_char s') (sent_end_char s') sp
              \<and> sa_text sa = sent_text s' \<and> a = project_span s' sp"
  proof (intro ballI)
    fix sa a
    assume sa: "sa \<in> set ?out" and a: "a \<in> set (sa_annotations sa)"
    from sa obtain j s' where is_in: "(j, s') \<in> set (enumerate 0 doc_sents)"
      and sa_eq: "sa = \<lparr> sa_text = sent_text s',
                  sa_annotations = map (project_span s')
                      (filter (span_overlaps (sent_start_char s') (sent_end_char s')) ?spans),
                  sa_sentence_id = Some (''sentence_'' @ string_of_nat j),
                  sa_abs_start = Some (sent_start_char s'),
                  sa_abs_end = Some (sent_end_char s') \<rparr>"
      by (auto simp: create_sentence_annotations_def Let_def)
    from is_in have s': "s' \<in> set doc_sents" by (auto simp add: in_set_enumerate_eq)
    from a sa_eq obtain sp where sp: "sp \<in> set ?spans"
      and ov: "span_overlaps (sent_start_char s') (sent_end_char s') sp"
      and a_eq: "a = project_span s' sp" by auto
    from s' sp ov a_eq sa_eq
    show "\<exists>s' \<in> set doc_sents. \<exists>sp \<in> set ?spans.
              span_overlaps (sent_start_char s') (sent_end_char s') sp
              \<and> sa_text sa = sent_text s' \<and> a = project_span s' sp"
      by (intro bexI [of _ s'] bexI [of _ sp]) simp_all
  qed
  have fourth: "\<forall>ps \<in> set ?pout. \<forall>d \<in> set (ps_annotations ps).
            \<exists>s' \<in> set doc_sents. \<exists>ann \<in> set passage_annotations. \<exists>loc rest.
              ann_locations ann = loc # rest
              \<and> loc_offset loc < passage_offset + sent_end_char s'
              \<and> loc_offset loc + loc_length loc > passage_offset + sent_start_char s'
              \<and> ps_text ps = sent_text s'
              \<and> d = project_location (sent_text s') (passage_offset + sent_start_char s') ann loc"
  proof (intro ballI)
    fix ps d
    assume ps: "ps \<in> set ?pout" and d: "d \<in> set (ps_annotations ps)"
    from ps obtain s' where s': "s' \<in> set doc_sents"
      and ps_eq: "ps = \<lparr> ps_text = sent_text s',
                     ps_abs_start = passage_offset + sent_start_char s',
                     ps_abs_end = passage_offset + sent_end_char s',
                     ps_annotations =
                       sentence_annotations_of (sent_text s') (passage_offset + sent_start_char s')
                         (passage_offset + sent_end_char s') passage_annotations \<rparr>"
      by (auto simp: process_passage_to_sentences_def Let_def split: if_splits)
    from d ps_eq have "d \<in> set (sentence_annotations_of (sent_text s')
        (passage_offset + sent_start_char s') (passage_offset + sent_end_char s') passage_annotations)"
      by simp
    then have "\<exists>ann loc rest. ann \<in> set passage_annotations
      \<and> ann_locations ann = loc # rest
      \<and> loc_offset loc < passage_offset + sent_end_char s'
      \<and> loc_offset loc + loc_length loc > passage_offset + sent_start_char s'
      \<and> d = project_location (sent_text s') (passage_offset + sent_start_char s') ann loc"
      by (rule sentence_annotations_of_member)
    then obtain ann loc rest where "ann \<in> set passage_annotations"
      "ann_locations ann = loc # rest"
      "loc_offset loc < passage_offset + sent_end_char s'"
      "loc_offset loc + loc_length loc > passage_offset + sent_start_char s'"
      "d = project_location (sent_text s') (passage_offset + sent_start_char s') ann loc"
      by blast
    with s' ps_eq
    show "\<exists>s' \<in> set doc_sents. \<exists>ann \<in> set passage_annotations. \<exists>loc rest.
              ann_locations ann = loc # rest
              \<and> loc_offset loc < passage_offset + sent_end_char s'
              \<and> loc_offset loc + loc_length loc > passage_offset + sent_start_char s'
              \<and> ps_text ps = sent_text s'
              \<and> d = project_location (sent_text s') (passage_offset + sent_start_char s') ann loc"
      by (intro bexI [of _ s'] bexI [of _ ann] exI [of _ loc] exI [of _ rest]) simp_all
  qed
  from first second third fourth show ?thesis by blast
qed

theorem projection_containment_witness:
  "abcde_sentence \<in> set [abcde_sentence]
   \<and> int (length (sent_text abcde_sentence))
        = sent_end_char abcde_sentence - sent_start_char abcde_sentence
   \<and> (11, 13, ''GENE'') \<in> set (snd (format_annotations ''0123456789abcdefghij''
                                      [span_dict 11 13 ''GENE'', span_dict 14 12 ''BAD'']))
   \<and> span_overlaps (sent_start_char abcde_sentence) (sent_end_char abcde_sentence) (11, 13, ''GENE'')
   \<and> span_begin (11, 13, ''GENE'') \<le> span_end (11, 13, ''GENE'')
   \<and> 0 \<le> an_begin (project_span abcde_sentence (11, 13, ''GENE''))
   \<and> an_begin (project_span abcde_sentence (11, 13, ''GENE''))
        \<le> an_end (project_span abcde_sentence (11, 13, ''GENE''))
   \<and> an_end (project_span abcde_sentence (11, 13, ''GENE'')) \<le> int (length (sent_text abcde_sentence))
   \<and> map sa_annotations
        (create_sentence_annotations ''0123456789abcdefghij''
           [span_dict 11 13 ''GENE'', span_dict 14 12 ''BAD''] [abcde_sentence])
       = [[\<lparr> an_begin = 1, an_end = 3, an_label = ''GENE'', an_text = Some ''bc'' \<rparr>,
           \<lparr> an_begin = 4, an_end = 2, an_label = ''BAD'', an_text = Some [] \<rparr>]]"
proof -
  have h1: "abcde_sentence \<in> set [abcde_sentence]" by simp
  have h2: "int (length (sent_text abcde_sentence))
        = sent_end_char abcde_sentence - sent_start_char abcde_sentence"
    by (simp add: abcde_sentence_def)
  have m: "(11, 13, ''GENE'') \<in> set (snd (format_annotations ''0123456789abcdefghij''
                                      [span_dict 11 13 ''GENE'', span_dict 14 12 ''BAD'']))"
    by (simp add: projector_eval)
  have ov: "span_overlaps (sent_start_char abcde_sentence) (sent_end_char abcde_sentence) (11, 13, ''GENE'')
     \<and> span_begin (11, 13, ''GENE'') \<le> span_end (11, 13, ''GENE'')"
    by (simp add: projector_eval)
  have ev: "map sa_annotations
        (create_sentence_annotations ''0123456789abcdefghij''
           [span_dict 11 13 ''GENE'', span_dict 14 12 ''BAD''] [abcde_sentence])
       = [[\<lparr> an_begin = 1, an_end = 3, an_label = ''GENE'', an_text = Some ''bc'' \<rparr>,
           \<lparr> an_begin = 4, an_end = 2, an_label = ''BAD'', an_text = Some [] \<rparr>]]"
    by (simp add: projector_eval)
  from projection_containment [OF h1 h2, of "''0123456789abcdefghij''"
         "[span_dict 11 13 ''GENE'', span_dict 14 12 ''BAD'']" "[]" 0 "''0123456789abcdefghij''"]
  have "\<forall>sp \<in> set (snd (format_annotations ''0123456789abcdefghij''
                                      [span_dict 11 13 ''GENE'', span_dict 14 12 ''BAD''])).
        span_overlaps (sent_start_char abcde_sentence) (sent_end_char abcde_sentence) sp
          \<and> span_begin sp \<le> span_end sp \<longrightarrow>
          0 \<le> an_begin (project_span abcde_sentence sp)
          \<and> an_begin (project_span abcde_sentence sp) \<le> an_end (project_span abcde_sentence sp)
          \<and> an_end (project_span abcde_sentence sp) \<le> int (length (sent_text abcde_sentence))
          \<and> (\<exists>sa \<in> set (create_sentence_annotations ''0123456789abcdefghij''
                           [span_dict 11 13 ''GENE'', span_dict 14 12 ''BAD''] [abcde_sentence]).
                sa_text sa = sent_text abcde_sentence
                \<and> project_span abcde_sentence sp \<in> set (sa_annotations sa))"
    by blast
  from bspec [OF this m] ov h1 h2 m ev show ?thesis by blast
qed

section \<open>Properties of the Resumable Batch Driver\<close>

lemma sanitize_examples:
  "sanitize_filename ''12345'' = ''12345''"
  "sanitize_filename ''67890'' = ''67890''"
  "sanitize_filename ''11111'' = ''11111''"
  "sanitize_filename ''35215501'' = ''35215501''"
  "sanitize_filename ''TITLE'' = ''title''"
  "sanitize_filename ''ABSTRACT'' = ''abstract''"
  "sanitize_filename ''Results & Discussion'' = ''results_discussion''"
  by (simp_all add: sanitize_filename_def strip_underscores_def lower_def char_lower_def
        upper_letters_def lower_letters_def safe_chars_def)

lemmas filename_eval = section_file_name_def sanitize_examples

lemmas scan_eval =
  get_existing_doc_ids_def is_json_name_def stem_def before_last_underscore_def match_doc_id_def
  List.map_filter_def filename_eval

lemmas driver_eval =
  process_and_save_def requested_ids_def ids_to_process_def initial_driver_state_def
  process_one_def try_document_def process_def saved_for_def save_section_file_def
  enumerate_eq_zip Let_def

lemma process_one_reported:
  assumes "\<forall>cb. on_progress = Some cb \<longrightarrow> (\<forall>i t d. cb i t d ''failed'' = None)"
  shows "\<exists>st'. process_one env on_progress by_sections total_count st item = Inr st'
    \<and> saved_files st' = saved_files st @ files_of env by_sections (snd item)
    \<and> failed_count st' = failed_count st
         + (if item_failed env by_sections on_progress total_count item then 1 else 0)
    \<and> processed_count st' = processed_count st
         + (if conversion_fails env by_sections (snd item) then 0 else 1)
    \<and> progress_calls st' = progress_calls st @ item_calls env by_sections on_progress total_count item"
proof (cases "process env (snd item) by_sections")
  case (Inl e)
  show ?thesis
  proof (cases on_progress)
    case None
    with Inl show ?thesis
      by (simp add: process_one_def try_document_def files_of_def conversion_fails_def
            item_failed_def item_calls_def Let_def)
  next
    case (Some cb)
    with assms have "\<forall>i t d. cb i t d ''failed'' = None" by blast
    with Inl Some show ?thesis
      by (simp add: process_one_def try_document_def files_of_def conversion_fails_def
            item_failed_def item_calls_def Let_def)
  qed
next
  case (Inr r)
  show ?thesis
  proof (cases on_progress)
    case None
    with Inr show ?thesis
      by (simp add: process_one_def try_document_def files_of_def conversion_fails_def
            item_failed_def item_calls_def callback_raises_def Let_def)
  next
    case (Some cb)
    with assms have q: "\<forall>i t d. cb i t d ''failed'' = None" by blast
    show ?thesis
    proof (cases "cb (fst item) total_count (snd item) ''processed''")
      case None
      with Inr Some q show ?thesis
        by (simp add: process_one_def try_document_def files_of_def conversion_fails_def
              item_failed_def item_calls_def callback_raises_def Let_def)
    next
      case (Some raised)
      with Inr \<open>on_progress = Some cb\<close> q show ?thesis
        by (simp add: process_one_def try_document_def files_of_def conversion_fails_def
              item_failed_def item_calls_def callback_raises_def Let_def)
    qed
  qed
qed

lemma process_documents_reported:
  assumes "\<forall>cb. on_progress = Some cb \<longrightarrow> (\<forall>i t d. cb i t d ''failed'' = None)"
  shows "\<exists>st'. process_documents env on_progress by_sections total_count st items = Inr st'
    \<and> saved_files st' = saved_files st @ concat (map (\<lambda>item. files_of env by_sections (snd item)) items)
    \<and> failed_count st' = failed_count st
         + length (filter (item_failed env by_sections on_progress total_count) items)
    \<and> processed_count st' = processed_count st
         + length (filter (\<lambda>item. \<not> conversion_fails env by_sections (snd item)) items)
    \<and> progress_calls st' = progress_calls st
         @ concat (map (item_calls env by_sections on_progress total_count) items)"
proof (induction items arbitrary: st)
  case Nil
  show ?case by simp
next
  case (Cons item rest)
  from process_one_reported [OF assms, of env by_sections total_count st item]
  obtain st1 where one: "process_one env on_progress by_sections total_count st item = Inr st1"
    and s1: "saved_files st1 = saved_files st @ files_of env by_sections (snd item)"
    and f1: "failed_count st1 = failed_count st
         + (if item_failed env by_sections on_progress total_count item then 1 else 0)"
    and p1: "processed_count st1 = processed_count st
         + (if conversion_fails env by_sections (snd item) then 0 else 1)"
    and c1: "progress_calls st1 = progress_calls st @ item_calls env by_sections on_progress total_count item"
    by blast
  from Cons.IH [of st1]
  obtain st' where rest: "process_documents env on_progress by_sections total_count st1 rest = Inr st'"
    and s2: "saved_files st' = saved_files st1 @ concat (map (\<lambda>item. files_of env by_sections (snd item)) rest)"
    and f2: "failed_count st' = failed_count st1
         + length (filter (item_failed env by_sections on_progress total_count) rest)"
    and p2: "processed_count st' = processed_count st1
         + length (filter (\<lambda>item. \<not> conversion_fails env by_sections (snd item)) rest)"
    and c2: "progress_calls st' = progress_calls st1
         @ concat (map (item_calls env by_sections on_progress total_count) rest)"
    by blast
  have "process_documents env on_progress by_sections total_count st (item # rest) = Inr st'"
    by (simp add: one rest)
  moreover have "saved_files st' = saved_files st
       @ concat (map (\<lambda>item. files_of env by_sections (snd item)) (item # rest))"
    by (simp add: s1 s2)
  moreover have "failed_count st' = failed_count st
         + length (filter (item_failed env by_sections on_progress total_count) (item # rest))"
    by (simp add: f1 f2)
  moreover have "processed_count st' = processed_count st
         + length (filter (\<lambda>item. \<not> conversion_fails env by_sections (snd item)) (item # rest))"
    by (simp add: p1 p2)
  moreover have "progress_calls st' = progress_calls st
         @ concat (map (item_calls env by_sections on_progress total_count) (item # rest))"
    by (simp add: c1 c2)
  ultimately show ?case by blast
qed

lemma failed_call_reported:
  assumes "on_progress \<noteq> None" and "item \<in> set items"
    and "conversion_fails env by_sections (snd item)"
  shows "(fst item, total_count, snd item, ''failed'')
           \<in> set (concat (map (item_calls env by_sections on_progress total_count) items))"
proof -
  have "(fst item, total_count, snd item, ''failed'')
          \<in> set (item_calls env by_sections on_progress total_count item)"
    using assms(1,3) by (simp add: item_calls_def)
  with assms(2) show ?thesis by auto
qed

lemma failures_counted:
  "length (filter (conversion_fails env by_sections) xs)
     \<le> length (filter (item_failed env by_sections on_progress total_count) (enumerate n xs))"
proof (induction xs arbitrary: n)
  case Nil show ?case by simp
next
  case (Cons x xs)
  from Cons.IH [of "Suc n"] show ?case by (simp add: item_failed_def)
qed

lemma quiet_items:
  assumes "\<forall>cb. on_progress = Some cb \<longrightarrow> (\<forall>i t d s. cb i t d s = None)"
  shows "item_failed env by_sections on_progress total_count item
           = conversion_fails env by_sections (snd item)"
    and "item_calls env by_sections on_progress total_count item
           = (if on_progress = None then []
              else [(fst item, total_count, snd item, status_of env by_sections (snd item))])"
  using assms
  by (auto simp: item_failed_def item_calls_def callback_raises_def status_of_def split: option.splits)

lemma filter_snd_enumerate:
  "length (filter (\<lambda>item. P (snd item)) (enumerate n xs)) = length (filter P xs)"
  by (induction xs arbitrary: n) auto

lemma concat_map_snd_enumerate:
  "concat (map (\<lambda>item. f (snd item)) (enumerate n xs)) = concat (map f xs)"
  by (induction xs arbitrary: n) auto

text \<open>
  C9, as stated, fails: the handler calls the progress callback unprotected, so a callback
  that raises when told \<open>failed\<close> ends the run at the first document whose conversion
  raised. With three documents of which the first fails in conversion, the driver raises the
  callback's exception; no further document is processed and nothing is returned.
\<close>

theorem batch_callback_raise_counterexample:
  "conversion_fails failing_first_env True ''12345''
   \<and> process_and_save failing_first_env True False False (Some raising_callback) None
        = Inl (PyException ''callback failed'')"
  by (simp add: conversion_fails_def driver_eval failing_first_env_def raising_callback_def)

lemma fussy_run:
  "process_and_save failing_first_env True False False (Some fussy_callback) None
     = Inr \<lparr> saved_files = [''67890_title.json'', ''11111_abstract.json''],
             processed_count = 2, failed_count = 2,
             progress_calls = [(1, 3, ''12345'', ''failed''), (2, 3, ''67890'', ''processed''),
                               (2, 3, ''67890'', ''failed''), (3, 3, ''11111'', ''processed'')] \<rparr>"
  by (simp add: driver_eval failing_first_env_def fussy_callback_def filename_eval)

text \<open>
  C9, amended. In batch mode, once the output directory is created and for a progress
  callback that returns normally whenever it is told \<open>failed\<close>, an exception raised while
  converting a document is isolated, for every collection and every per-document work
  function: \<open>process_and_save\<close> returns, every conversion failure is counted, the callback
  is told \<open>failed\<close> for every document whose conversion raised, every document is taken in
  turn, and the returned list holds the files saved for the converted documents (followed by
  the archive, if one was made). A callback that raises when told \<open>processed\<close> is handled
  the same way: the document counts as failed as well and the callback is told so. With a
  callback that never raises, exactly the conversion failures are counted and the callback is
  called once per document with its status.
\<close>

theorem batch_failure_isolated:
  assumes "mkdir_error env = None"
    and "\<forall>cb. on_progress = Some cb \<longrightarrow> (\<forall>i t d. cb i t d ''failed'' = None)"
  shows "\<exists>st archive.
      process_and_save env by_sections resume compress on_progress document_ids = Inr st
    \<and> processed_count st
        = length (filter (\<lambda>d. \<not> conversion_fails env by_sections d)
                    (ids_to_process env resume document_ids))
    \<and> failed_count st
        = length (filter (item_failed env by_sections on_progress
                            (length (ids_to_process env resume document_ids)))
                    (enumerate 1 (ids_to_process env resume document_ids)))
    \<and> length (filter (conversion_fails env by_sections) (ids_to_process env resume document_ids))
        \<le> failed_count st
    \<and> progress_calls st
        = concat (map (item_calls env by_sections on_progress
                         (length (ids_to_process env resume document_ids)))
                    (enumerate 1 (ids_to_process env resume document_ids)))
    \<and> (on_progress \<noteq> None \<longrightarrow>
         (\<forall>item \<in> set (enumerate 1 (ids_to_process env resume document_ids)).
            conversion_fails env by_sections (snd item) \<longrightarrow>
              (fst item, length (ids_to_process env resume document_ids), snd item, ''failed'')
                \<in> set (progress_calls st)))
    \<and> ((\<forall>cb. on_progress = Some cb \<longrightarrow> (\<forall>i t d s. cb i t d s = None)) \<longrightarrow>
          failed_count st
            = length (filter (conversion_fails env by_sections)
                        (ids_to_process env resume document_ids))
          \<and> (on_progress \<noteq> None \<longrightarrow>
               progress_calls st
                 = map (\<lambda>item. (fst item, length (ids_to_process env resume document_ids),
                                 snd item, status_of env by_sections (snd item)))
                       (enumerate 1 (ids_to_process env resume document_ids))))
    \<and> saved_files st
        = concat (map (files_of env by_sections) (ids_to_process env resume document_ids)) @ archive
    \<and> (archive = [] \<or> archive = [''bioc_collection.tar.gz''])"
proof -
  let ?todo = "ids_to_process env resume document_ids"
  let ?items = "enumerate 1 ?todo"
  let ?n = "length ?todo"
  from process_documents_reported [OF assms(2), of env by_sections ?n initial_driver_state ?items]
  obtain st where run: "process_documents env on_progress by_sections ?n
                          initial_driver_state ?items = Inr st"
    and s0: "saved_files st = saved_files initial_driver_state
           @ concat (map (\<lambda>item. files_of env by_sections (snd item)) ?items)"
    and f0: "failed_count st = failed_count initial_driver_state
           + length (filter (item_failed env by_sections on_progress ?n) ?items)"
    and p0: "processed_count st = processed_count initial_driver_state
           + length (filter (\<lambda>item. \<not> conversion_fails env by_sections (snd item)) ?items)"
    and c0: "progress_calls st = progress_calls initial_driver_state
           @ concat (map (item_calls env by_sections on_progress ?n) ?items)"
    by blast
  have s: "saved_files st = concat (map (files_of env by_sections) ?todo)"
    using s0 concat_map_snd_enumerate [of "files_of env by_sections" 1 ?todo]
    by (simp add: initial_driver_state_def)
  have f: "failed_count st = length (filter (item_failed env by_sections on_progress ?n) ?items)"
    using f0 by (simp add: initial_driver_state_def)
  have p: "processed_count st = length (filter (\<lambda>d. \<not> conversion_fails env by_sections d) ?todo)"
    using p0 filter_snd_enumerate [of "\<lambda>d. \<not> conversion_fails env by_sections d" 1 ?todo]
    by (simp add: initial_driver_state_def)
  have c: "progress_calls st = concat (map (item_calls env by_sections on_progress ?n) ?items)"
    using c0 by (simp add: initial_driver_state_def)
  have counted: "length (filter (conversion_fails env by_sections) ?todo) \<le> failed_count st"
    unfolding f by (rule failures_counted)
  have reported: "on_progress \<noteq> None \<longrightarrow>
         (\<forall>item \<in> set ?items. conversion_fails env by_sections (snd item) \<longrightarrow>
              (fst item, ?n, snd item, ''failed'') \<in> set (progress_calls st))"
    unfolding c using failed_call_reported [of on_progress _ ?items env by_sections ?n] by blast
  have quiet: "(\<forall>cb. on_progress = Some cb \<longrightarrow> (\<forall>i t d s. cb i t d s = None)) \<longrightarrow>
          failed_count st = length (filter (conversion_fails env by_sections) ?todo)
          \<and> (on_progress \<noteq> None \<longrightarrow>
               progress_calls st
                 = map (\<lambda>item. (fst item, ?n, snd item, status_of env by_sections (snd item))) ?items)"
  proof
    assume q: "\<forall>cb. on_progress = Some cb \<longrightarrow> (\<forall>i t d s. cb i t d s = None)"
    have fi: "item_failed env by_sections on_progress ?n
                = (\<lambda>item. conversion_fails env by_sections (snd item))"
      using quiet_items(1) [OF q] by (intro ext)
    have "failed_count st = length (filter (conversion_fails env by_sections) ?todo)"
      unfolding f fi by (rule filter_snd_enumerate)
    moreover have "on_progress \<noteq> None \<longrightarrow>
               progress_calls st
                 = map (\<lambda>item. (fst item, ?n, snd item, status_of env by_sections (snd item))) ?items"
    proof
      assume ne: "on_progress \<noteq> None"
      have "item_calls env by_sections on_progress ?n
              = (\<lambda>item. [(fst item, ?n, snd item, status_of env by_sections (snd item))])"
        using quiet_items(2) [OF q] ne by (intro ext) simp
      then show "progress_calls st
                 = map (\<lambda>item. (fst item, ?n, snd item, status_of env by_sections (snd item))) ?items"
        unfolding c by (simp add: concat_map_singleton)
    qed
    ultimately show "failed_count st = length (filter (conversion_fails env by_sections) ?todo)
          \<and> (on_progress \<noteq> None \<longrightarrow>
               progress_calls st
                 = map (\<lambda>item. (fst item, ?n, snd item, status_of env by_sections (snd item))) ?items)"
      by blast
  qed
  show ?thesis
  proof (cases "requested_ids env document_ids = []")
    case True
    then have todo: "?todo = []" by (simp add: ids_to_process_def)
    have r: "process_and_save env by_sections resume compress on_progress document_ids
          = Inr initial_driver_state"
      using True assms(1) by (simp add: process_and_save_def)
    from run todo have "st = initial_driver_state" by simp
    with r s p f c counted reported quiet show ?thesis by (intro exI [of _ st] exI [of _ "[]"]) simp
  next
    case False
    show ?thesis
    proof (cases "compress \<and> saved_files st \<noteq> [] \<and> archive_succeeds env (saved_files st)")
      case True
      let ?st = "st \<lparr> saved_files := saved_files st @ [''bioc_collection.tar.gz''] \<rparr>"
      have r: "process_and_save env by_sections resume compress on_progress document_ids = Inr ?st"
        using True False assms(1) run by (simp add: process_and_save_def Let_def)
      from r s p f c counted reported quiet show ?thesis
        by (intro exI [of _ ?st] exI [of _ "[''bioc_collection.tar.gz'']"]) simp
    next
      case nc: False
      have r: "process_and_save env by_sections resume compress on_progress document_ids = Inr st"
        using nc False assms(1) run by (auto simp add: process_and_save_def Let_def)
      from r s p f c counted reported quiet show ?thesis
        by (intro exI [of _ st] exI [of _ "[]"]) simp
    qed
  qed
qed

theorem batch_failure_isolated_witness:
  "mkdir_error failing_first_env = None
   \<and> fussy_callback 1 3 ''12345'' ''failed'' = None
   \<and> fussy_callback 2 3 ''67890'' ''processed'' = Some (PyException ''callback failed'')
   \<and> conversion_fails failing_first_env True ''12345''
   \<and> process_and_save failing_first_env True False False (Some fussy_callback) None
     = Inr \<lparr> saved_files = [''67890_title.json'', ''11111_abstract.json''],
             processed_count = 2, failed_count = 2,
             progress_calls = [(1, 3, ''12345'', ''failed''), (2, 3, ''67890'', ''processed''),
                               (2, 3, ''67890'', ''failed''), (3, 3, ''11111'', ''processed'')] \<rparr>
   \<and> length (filter (conversion_fails failing_first_env True)
               (ids_to_process failing_first_env False None)) \<le> 2"
proof -
  have h1: "mkdir_error failing_first_env = None" by (simp add: failing_first_env_def)
  have h2: "\<forall>cb. Some fussy_callback = Some cb \<longrightarrow> (\<forall>i t d. cb i t d ''failed'' = None)"
    by (simp add: fussy_callback_def)
  have f: "conversion_fails failing_first_env True ''12345''"
    by (simp add: conversion_fails_def process_def failing_first_env_def)
  have c: "fussy_callback 1 3 ''12345'' ''failed'' = None
     \<and> fussy_callback 2 3 ''67890'' ''processed'' = Some (PyException ''callback failed'')"
    by (simp add: fussy_callback_def)
  from batch_failure_isolated [OF h1 h2, of True False False None]
  obtain st where "process_and_save failing_first_env True False False (Some fussy_callback) None = Inr st"
    and "length (filter (conversion_fails failing_first_env True)
               (ids_to_process failing_first_env False None)) \<le> failed_count st"
    by blast
  with fussy_run h1 f c show ?thesis by simp
qed

text \<open>
  C3. The resume scan does not invert the file naming for a section whose sanitized name
  contains an underscore. For document \<open>35215501\<close> and section \<open>Results & Discussion\<close> the
  driver writes \<open>35215501_results_discussion.json\<close>; the scan cuts the stem at its last
  underscore, obtains \<open>35215501_results\<close>, matches no document id, and a rerun with resume
  processes the document again. A one-word section name is mapped back.
\<close>

theorem resume_scan_misses_multiword_section:
  "section_file_name ''35215501'' ''Results & Discussion'' = ''35215501_results_discussion.json''
   \<and> before_last_underscore (stem ''35215501_results_discussion.json'') = ''35215501_results''
   \<and> sanitize_filename ''35215501'' = ''35215501''
   \<and> get_existing_doc_ids [''35215501'']
        (Some [section_file_name ''35215501'' ''Results & Discussion'']) = {}
   \<and> files_of rerun_env True ''35215501'' = output_listing rerun_env
   \<and> ids_to_process rerun_env True None = [''35215501'']
   \<and> get_existing_doc_ids [''35215501''] (Some [section_file_name ''35215501'' ''TITLE''])
        = {''35215501''}"
  by (simp add: scan_eval files_of_def driver_eval rerun_env_def)

end
